theory Spec2Isabelle
  imports Main "HOL-Library.Word"
begin

section \<open>BatteryCycleiOS: the sysdiagnose battery log reader\<close>

text \<open>
  A shallow embedding of \<^verbatim>\<open>BatteryCycleiOS.cpp\<close>. The program is written for Windows
  (it includes \<^verbatim>\<open>windows.h\<close> and uses the \<^verbatim>\<open>_s\<close> functions of the Microsoft C
  runtime), where \<^verbatim>\<open>unsigned long\<close> and \<^verbatim>\<open>long\<close> are 32 bits wide: \<^verbatim>\<open>unsigned long\<close> is
  \<open>32 word\<close>, whose arithmetic wraps around as C's does. A C string is the list of its
  characters without the terminating NUL; a fixed-width field is a list of bytes.
\<close>

subsection \<open>Constants and characters\<close>

type_synonym ulong = "32 word"

definition CHUNK :: nat where
  "CHUNK = 16384"

definition TAR_BLOCK_SIZE :: nat where
  "TAR_BLOCK_SIZE = 512"

definition MAX_PATH_LENGTH :: nat where
  "MAX_PATH_LENGTH = 260"

definition MAX_COLUMNS :: nat where
  "MAX_COLUMNS = 256"

definition MAX_BUFFER_SIZE :: nat where
  "MAX_BUFFER_SIZE = 1024"

abbreviation NUL :: char where
  "NUL \<equiv> CHR 0x00"

abbreviation TAB :: char where
  "TAB \<equiv> CHR 0x09"

abbreviation LF :: char where
  "LF \<equiv> CHR 0x0A"

abbreviation CR :: char where
  "CR \<equiv> CHR 0x0D"

abbreviation DQUOTE :: char where
  "DQUOTE \<equiv> CHR 0x22"

text \<open>The value of a \<^verbatim>\<open>char\<close> in an expression: \<^verbatim>\<open>char\<close> is signed on the target.\<close>

definition schar :: "char \<Rightarrow> int" where
  "schar c = (if (of_char c :: nat) < 128 then int (of_char c) else int (of_char c) - 256)"

subsection \<open>ulParseOctal\<close>

text \<open>
  \<^verbatim>\<open>for (i = 0; i < nSize && (szStr[i] == ' ' || szStr[i] == '\0'); i++);\<close>
  The result is the index the loop stops at.
\<close>

function ulParseOctal_skip :: "string \<Rightarrow> nat \<Rightarrow> nat \<Rightarrow> nat" where
  "ulParseOctal_skip szStr nSize i =
     (if i < nSize \<and> (szStr ! i = CHR '' '' \<or> szStr ! i = NUL)
      then ulParseOctal_skip szStr nSize (i + 1)
      else i)"
  by pat_completeness auto
termination
  by (relation "measure (\<lambda>(szStr, nSize, i). nSize - i)") auto

text \<open>
  The second loop, with its \<^verbatim>\<open>break\<close> on a character outside \<^verbatim>\<open>'0'..'7'\<close>:
  \<^verbatim>\<open>ulResult = ulResult * 8 + (szStr[i] - '0')\<close> in \<^verbatim>\<open>unsigned long\<close> arithmetic.
\<close>

function ulParseOctal_loop :: "string \<Rightarrow> nat \<Rightarrow> nat \<Rightarrow> ulong \<Rightarrow> ulong" where
  "ulParseOctal_loop szStr nSize i ulResult =
     (if i < nSize \<and> szStr ! i \<noteq> CHR '' '' \<and> szStr ! i \<noteq> NUL then
        (if schar (szStr ! i) < schar (CHR ''0'') \<or> schar (szStr ! i) > schar (CHR ''7'')
         then ulResult
         else ulParseOctal_loop szStr nSize (i + 1)
                (ulResult * 8 + of_int (schar (szStr ! i) - schar (CHR ''0''))))
      else ulResult)"
  by pat_completeness auto
termination
  by (relation "measure (\<lambda>(szStr, nSize, i, ulResult). nSize - i)") auto

definition ulParseOctal :: "string \<Rightarrow> nat \<Rightarrow> ulong" where
  "ulParseOctal szStr nSize =
     ulParseOctal_loop szStr nSize (ulParseOctal_skip szStr nSize 0) 0"

declare ulParseOctal_skip.simps [simp del]
declare ulParseOctal_loop.simps [simp del]

subsection \<open>C strings\<close>

text \<open>
  \<^verbatim>\<open>strchr\<close> and \<^verbatim>\<open>strrchr\<close> return the offset of the first and of the last occurrence,
  \<open>None\<close> for the null pointer. The program only tests the result of \<^verbatim>\<open>strstr\<close>.
\<close>

fun strchr :: "string \<Rightarrow> char \<Rightarrow> nat option" where
  "strchr [] c = None"
| "strchr (x # xs) c = (if x = c then Some 0 else map_option Suc (strchr xs c))"

fun strrchr :: "string \<Rightarrow> char \<Rightarrow> nat option" where
  "strrchr [] c = None"
| "strrchr (x # xs) c =
     (case strrchr xs c of
        Some k \<Rightarrow> Some (Suc k)
      | None \<Rightarrow> (if x = c then Some 0 else None))"

fun strstr :: "string \<Rightarrow> string \<Rightarrow> bool" where
  "strstr [] sub = (sub = [])"
| "strstr (x # xs) sub = (take (length sub) (x # xs) = sub \<or> strstr xs sub)"

text \<open>\<^verbatim>\<open>strncmp(a, b, n) == 0\<close>, for strings given without their terminators.\<close>

definition strncmp_eq :: "string \<Rightarrow> string \<Rightarrow> nat \<Rightarrow> bool" where
  "strncmp_eq a b n = (take n a = take n b)"

text \<open>
  \<^verbatim>\<open>strncpy_s(dest, size, src, _TRUNCATE)\<close>: the value returned and the string left in
  \<^verbatim>\<open>dest\<close>. A source that does not fit is cut to \<^verbatim>\<open>size - 1\<close> characters and the call
  returns \<^verbatim>\<open>STRUNCATE\<close> (80), which is not zero.
\<close>

definition strncpy_s_TRUNCATE :: "nat \<Rightarrow> string \<Rightarrow> int \<times> string" where
  "strncpy_s_TRUNCATE nSize src =
     (if length src < nSize then (0, src) else (80, take (nSize - 1) src))"

text \<open>The string a \<^verbatim>\<open>char*\<close> into a byte buffer denotes: the bytes before the first NUL.\<close>

definition c_string :: "string \<Rightarrow> string" where
  "c_string bytes = takeWhile (\<lambda>c. c \<noteq> NUL) bytes"

subsection \<open>bIsInDirectory\<close>

definition bIsInDirectory :: "string \<Rightarrow> string \<Rightarrow> bool" where
  "bIsInDirectory szPath szTargetDir =
     (let nDirLen = length szTargetDir in
      if nDirLen > 0 \<and> szTargetDir ! (nDirLen - 1) \<noteq> CHR ''/''
           \<and> szTargetDir ! (nDirLen - 1) \<noteq> CHR 0x5C
      then strncmp_eq szPath (szTargetDir @ ''/'') (nDirLen + 1)
      else strncmp_eq szPath szTargetDir nDirLen)"

subsection \<open>nGetCSVDataByColName\<close>

text \<open>
  The function works on a heap copy of the text and cuts tokens out of it by writing NUL
  over the delimiter. A token is modelled by the characters between its start
  (\<^verbatim>\<open>nTokenStart\<close>) and the delimiter. The two trimming loops:
  \<^verbatim>\<open>while (*p == ' ' || *p == '\t' || *p == '"') p++;\<close> and
  \<^verbatim>\<open>while (pEnd > p && (*pEnd == ' ' || *pEnd == '\t' || *pEnd == '"' || *pEnd == '\r')) pEnd--;\<close>
  The second never moves below \<^verbatim>\<open>p\<close>: the first character that the first loop left
  stays.
\<close>

definition csv_trim_leading :: "string \<Rightarrow> string" where
  "csv_trim_leading tok = dropWhile (\<lambda>c. c = CHR '' '' \<or> c = TAB \<or> c = DQUOTE) tok"

fun csv_trim_trailing :: "string \<Rightarrow> string" where
  "csv_trim_trailing [] = []"
| "csv_trim_trailing (c # cs) =
     c # rev (dropWhile (\<lambda>c. c = CHR '' '' \<or> c = TAB \<or> c = DQUOTE \<or> c = CR) (rev cs))"

definition csv_trim :: "string \<Rightarrow> string" where
  "csv_trim tok = csv_trim_trailing (csv_trim_leading tok)"

text \<open>
  The header loop and the handling of the last column after it. The arguments are the
  characters from index \<^verbatim>\<open>i\<close> on, \<^verbatim>\<open>bInQuotes\<close>, the characters of the current token
  (from \<^verbatim>\<open>nTokenStart\<close> to \<^verbatim>\<open>i\<close>) and \<^verbatim>\<open>szColumnNames\<close> (its length is
  \<^verbatim>\<open>nColumnCount\<close>).
\<close>

fun csv_header_loop :: "string \<Rightarrow> bool \<Rightarrow> string \<Rightarrow> string list \<Rightarrow> string list" where
  "csv_header_loop [] bInQuotes tok szColumnNames =
     (if length szColumnNames < MAX_COLUMNS then szColumnNames @ [csv_trim tok]
      else szColumnNames)"
| "csv_header_loop (c # cs) bInQuotes tok szColumnNames =
     (if length szColumnNames < MAX_COLUMNS then
        (if c = DQUOTE then csv_header_loop cs (\<not> bInQuotes) (tok @ [c]) szColumnNames
         else if c = CHR '','' \<and> \<not> bInQuotes
         then csv_header_loop cs bInQuotes [] (szColumnNames @ [csv_trim tok])
         else csv_header_loop cs bInQuotes (tok @ [c]) szColumnNames)
      else szColumnNames)"

text \<open>The search for the target column: the first name equal to \<^verbatim>\<open>szColName\<close>.\<close>

fun csv_target_col :: "string list \<Rightarrow> string \<Rightarrow> nat \<Rightarrow> nat option" where
  "csv_target_col [] szColName i = None"
| "csv_target_col (n # ns) szColName i =
     (if n = szColName then Some i else csv_target_col ns szColName (i + 1))"

text \<open>\<^verbatim>\<open>while (nCurrentRow < nRow)\<close>: the second argument is \<^verbatim>\<open>nRow - nCurrentRow\<close>.\<close>

fun csv_skip_rows :: "string \<Rightarrow> nat \<Rightarrow> string option" where
  "csv_skip_rows szBufferCopy 0 = Some szBufferCopy"
| "csv_skip_rows szBufferCopy (Suc n) =
     (case strchr szBufferCopy LF of
        None \<Rightarrow> None
      | Some k \<Rightarrow> csv_skip_rows (drop (k + 1) szBufferCopy) n)"

text \<open>The loop of the branch \<^verbatim>\<open>nRow == -1\<close>; it returns \<^verbatim>\<open>pLastRowStart\<close>.\<close>

function csv_last_row :: "string \<Rightarrow> string \<Rightarrow> string" where
  "csv_last_row szBufferCopy pLastRowStart =
     (case strchr szBufferCopy LF of
        None \<Rightarrow> pLastRowStart
      | Some k \<Rightarrow> csv_last_row (drop (k + 1) szBufferCopy) szBufferCopy)"
  by pat_completeness auto
termination
proof (relation "measure (\<lambda>(szBufferCopy, pLastRowStart). length szBufferCopy)")
  show "wf (measure (\<lambda>(szBufferCopy, pLastRowStart). length szBufferCopy))"
    by simp
next
  fix szBufferCopy pLastRowStart :: string and k
  assume found: "strchr szBufferCopy LF = Some k"
  have "strchr s LF = Some j \<Longrightarrow> j < length s" for s j
    by (induction s arbitrary: j) (auto split: if_splits)
  from this [OF found]
  show "((drop (k + 1) szBufferCopy, szBufferCopy), (szBufferCopy, pLastRowStart))
        \<in> measure (\<lambda>(szBufferCopy, pLastRowStart). length szBufferCopy)"
    by simp
qed

definition csv_select_row :: "string \<Rightarrow> int \<Rightarrow> string option" where
  "csv_select_row szBufferCopy nRow =
     (if nRow \<ge> 0 then csv_skip_rows szBufferCopy (nat nRow)
      else if nRow = -1 then Some (csv_last_row szBufferCopy szBufferCopy)
      else Some szBufferCopy)"

text \<open>
  The row loop and the check of the last column after it: the raw token trimmed, or
  \<open>None\<close> when the row has no such column.
\<close>

fun csv_row_loop :: "string \<Rightarrow> bool \<Rightarrow> string \<Rightarrow> nat \<Rightarrow> nat \<Rightarrow> string option" where
  "csv_row_loop [] bInQuotes tok nCurrentCol nTargetCol =
     (if nCurrentCol = nTargetCol then Some (csv_trim tok) else None)"
| "csv_row_loop (c # cs) bInQuotes tok nCurrentCol nTargetCol =
     (if nCurrentCol \<le> nTargetCol then
        (if c = DQUOTE then csv_row_loop cs (\<not> bInQuotes) (tok @ [c]) nCurrentCol nTargetCol
         else if c = CHR '','' \<and> \<not> bInQuotes then
           (if nCurrentCol = nTargetCol then Some (csv_trim tok)
            else csv_row_loop cs bInQuotes [] (nCurrentCol + 1) nTargetCol)
         else csv_row_loop cs bInQuotes (tok @ [c]) nCurrentCol nTargetCol)
      else if nCurrentCol = nTargetCol then Some (csv_trim tok) else None)"

text \<open>
  An access outside the heap copy is undefined behaviour; the model stops with a fault.
  The copy holds \<^verbatim>\<open>nBufferLen + 1\<close> bytes, the text and its terminator.
\<close>

datatype fault = OutOfBounds

text \<open>
  The result is the value returned and the string left in \<^verbatim>\<open>szResult\<close> (empty once the
  function has initialised it). \<^verbatim>\<open>malloc\<close> is taken to succeed. When the text has no
  newline, \<^verbatim>\<open>pHeaderEnd\<close> is the terminator of the copy and
  \<^verbatim>\<open>szBufferCopy = pHeaderEnd + 1\<close> lies past the end of the copy: every later
  \<^verbatim>\<open>strchr\<close>, \<^verbatim>\<open>strlen\<close> and \<^verbatim>\<open>*pRowEnd = '\0'\<close> is out of bounds.
\<close>

definition nGetCSVDataByColName :: "string \<Rightarrow> int \<Rightarrow> string \<Rightarrow> nat \<Rightarrow> fault + int \<times> string" where
  "nGetCSVDataByColName szCsvBuffer nRow szColName nBufSize =
     (if nBufSize = 0 then Inr (-1, [])
      else
        let nBufferLen = length szCsvBuffer;
            pHeaderEnd = (case strchr szCsvBuffer LF of Some k \<Rightarrow> k | None \<Rightarrow> nBufferLen);
            szColumnNames = csv_header_loop (take pHeaderEnd szCsvBuffer) False [] []
        in case csv_target_col szColumnNames szColName 0 of
             None \<Rightarrow> Inr (-3, [])
           | Some nTargetCol \<Rightarrow>
               if nBufferLen < pHeaderEnd + 1 then Inl OutOfBounds
               else
                 (case csv_select_row (drop (pHeaderEnd + 1) szCsvBuffer) nRow of
                    None \<Rightarrow> Inr (-5, [])
                  | Some szRow \<Rightarrow>
                      (case csv_row_loop (takeWhile (\<lambda>c. c \<noteq> LF) szRow) False [] 0 nTargetCol of
                         None \<Rightarrow> Inr (-4, [])
                       | Some szValue \<Rightarrow>
                           (case strncpy_s_TRUNCATE nBufSize szValue of
                              (e, szResult) \<Rightarrow>
                                if e = 0 then Inr (0, szResult) else Inr (-6, szResult)))))"

subsection \<open>The gzip stream\<close>

text \<open>
  zlib is not part of the repository. A \<^verbatim>\<open>gzFile\<close> open for reading is modelled by the
  decompressed bytes on both sides of its position: \<open>gz_before\<close> holds the bytes before
  the position (its length is the position), \<open>gz_data\<close> the bytes from the position on.
  A flag says whether the compressed data breaks off after them (then a read that
  reaches the end reports an error and \<^verbatim>\<open>gzeof\<close> stays false) or ends properly.
\<close>

record gzFile =
  gz_before :: string
  gz_data :: string
  gz_damaged :: bool

text \<open>\<^verbatim>\<open>gzread\<close>: the bytes stored in the buffer (fewer than asked for at the end).\<close>

definition gzread :: "gzFile \<Rightarrow> nat \<Rightarrow> string \<times> gzFile" where
  "gzread gz len =
     (take len (gz_data gz),
      gz\<lparr>gz_before := gz_before gz @ take len (gz_data gz),
         gz_data := drop len (gz_data gz)\<rparr>)"

definition gzeof :: "gzFile \<Rightarrow> bool" where
  "gzeof gz = (gz_data gz = [] \<and> \<not> gz_damaged gz)"

text \<open>
  \<^verbatim>\<open>gzseek(file, offset, SEEK_CUR)\<close>. The offset is a \<^verbatim>\<open>z_off_t\<close>, a 32-bit \<^verbatim>\<open>long\<close>
  here: the \<^verbatim>\<open>size_t\<close> product \<^verbatim>\<open>nBlocks * TAR_BLOCK_SIZE\<close> (below \<open>2 ^ 32\<close>) is converted
  to it. A forward seek skips to the new position or to the end of the data. A
  backward seek rewinds the stream and skips to the new position, so that the bytes
  after it are read again; when the new position would be before the start of the
  file the seek fails and leaves the position alone. The program ignores what
  \<^verbatim>\<open>gzseek\<close> returns.
\<close>

definition to_z_off_t :: "int \<Rightarrow> int" where
  "to_z_off_t n =
     (let m = n mod 2 ^ 32 in if m < 2 ^ 31 then m else m - 2 ^ 32)"

definition gzseek :: "gzFile \<Rightarrow> int \<Rightarrow> gzFile" where
  "gzseek gz offset =
     (if offset < 0 then
        (if int (length (gz_before gz)) + offset < 0 then gz
         else
           (let pos = nat (int (length (gz_before gz)) + offset) in
            gz\<lparr>gz_before := take pos (gz_before gz),
               gz_data := drop pos (gz_before gz) @ gz_data gz\<rparr>))
      else
        gz\<lparr>gz_before := gz_before gz @ take (nat offset) (gz_data gz),
           gz_data := drop (nat offset) (gz_data gz)\<rparr>)"

subsection \<open>The tar header\<close>

text \<open>
  \<^verbatim>\<open>tarHeaderT\<close> is 512 bytes of \<^verbatim>\<open>char\<close> arrays without padding; the header is the
  block as read. \<^verbatim>\<open>szName\<close> starts at offset 0 and is used as a C string: it runs to
  the first NUL of the block, past the 100 bytes of the field when they hold none. (A
  block without any NUL takes the string functions past the header: the loop below
  gives a fault for it.) \<^verbatim>\<open>szSize\<close> is the 12 bytes at offset 124, \<^verbatim>\<open>cTypeflag\<close> the
  byte at offset 156.
\<close>

definition hdr_szName :: "string \<Rightarrow> string" where
  "hdr_szName stHeader = c_string stHeader"

definition hdr_szSize :: "string \<Rightarrow> string" where
  "hdr_szSize stHeader = take 12 (drop 124 stHeader)"

definition hdr_cTypeflag :: "string \<Rightarrow> char" where
  "hdr_cTypeflag stHeader = stHeader ! 156"

text \<open>
  \<^verbatim>\<open>nBlocks = (ulFileSize + TAR_BLOCK_SIZE - 1) / TAR_BLOCK_SIZE\<close>, computed in
  \<^verbatim>\<open>unsigned long\<close>, and the offset handed to \<^verbatim>\<open>gzseek\<close>.
\<close>

definition nBlocks_of :: "ulong \<Rightarrow> int" where
  "nBlocks_of ulFileSize = uint ((ulFileSize + 512 - 1) div 512)"

definition skip_offset :: "ulong \<Rightarrow> int" where
  "skip_offset ulFileSize = to_z_off_t (nBlocks_of ulFileSize * int TAR_BLOCK_SIZE)"

subsection \<open>nExtractFromTargzWithCallback\<close>

text \<open>What the program writes to \<^verbatim>\<open>stderr\<close> and \<^verbatim>\<open>stdout\<close>, in order.\<close>

datatype event =
    Err_cannot_open
  | Err_unexpected_end
  | Warn_unsafe_path string
  | Err_read_failed
  | Err_parse_timestamp
  | Err_parse_cyclecount
  | Out_battery string string
  | Out_parsing
  | Err_analyze
  | Err_no_match
  | Out_latest string
  | Out_checking

text \<open>
  A matcher callback gets the file name and the user data and returns its \<^verbatim>\<open>int\<close> and
  the user data as it left them.
\<close>

type_synonym 'u matcher = "string \<Rightarrow> 'u \<Rightarrow> int \<times> 'u"

text \<open>
  The loop that reads the content in chunks: \<open>None\<close> when a read comes back short,
  else the content and the stream after it.
\<close>

function read_content :: "gzFile \<Rightarrow> nat \<Rightarrow> string \<Rightarrow> (string \<times> gzFile) option" where
  "read_content gz nRemaining szCsvBuf =
     (if nRemaining > 0 then
        (let nToRead = (if nRemaining > CHUNK then CHUNK else nRemaining) in
         case gzread gz nToRead of
           (szBuffer, gz') \<Rightarrow>
             if length szBuffer \<noteq> nToRead then None
             else read_content gz' (nRemaining - nToRead) (szCsvBuf @ szBuffer))
      else Some (szCsvBuf, gz))"
  by pat_completeness auto
termination
  by (relation "measure (\<lambda>(gz, nRemaining, szCsvBuf). nRemaining)") (auto simp: CHUNK_def)

text \<open>
  What happens to an accepted entry: its content is read, the two fields are taken from
  its last row, and the loop is left. The buffer is read as a C string. A failure of
  \<^verbatim>\<open>nGetCSVDataByColName\<close> leaves the loop with \<^verbatim>\<open>nRet\<close> still 0. \<^verbatim>\<open>malloc\<close> is taken
  to succeed. Its argument \<^verbatim>\<open>ulFileSize + 1\<close> is an \<^verbatim>\<open>unsigned long\<close>: for the size
  \<open>2 ^ 32 - 1\<close> it is 0, and the terminator written at \<^verbatim>\<open>szCsvBuf[ulFileSize]\<close> lies
  outside the block allocated.
\<close>

definition extract_entry ::
  "gzFile \<Rightarrow> ulong \<Rightarrow> 'u \<Rightarrow> event list \<Rightarrow> fault + int \<times> 'u \<times> event list" where
  "extract_entry gz ulFileSize pUserData log =
     (if ulFileSize + 1 = 0 then Inl OutOfBounds
      else
        (case read_content gz (unat ulFileSize) [] of
           None \<Rightarrow> Inr (-1, pUserData, log @ [Err_read_failed])
         | Some (content, gz') \<Rightarrow>
             (case nGetCSVDataByColName (c_string content) (-1) ''TimeStamp'' MAX_BUFFER_SIZE of
                Inl f \<Rightarrow> Inl f
              | Inr (rcT, szBufferTimestamp) \<Rightarrow>
                  if rcT \<noteq> 0 then Inr (0, pUserData, log @ [Err_parse_timestamp])
                  else
                    (case nGetCSVDataByColName (c_string content) (-1) ''CycleCount''
                            MAX_BUFFER_SIZE of
                       Inl f \<Rightarrow> Inl f
                     | Inr (rcC, szBufferCycleCount) \<Rightarrow>
                         if rcC \<noteq> 0 then Inr (0, pUserData, log @ [Err_parse_cyclecount])
                         else Inr (0, pUserData,
                                   log @ [Out_battery szBufferCycleCount szBufferTimestamp])))))"

text \<open>
  The main loop. A size field can make the offset of a seek negative, and then the
  stream goes back and the loop may read the same headers again without end: the loop
  is a partial function, and \<open>None\<close> says that it does not return. When it returns,
  the result is the value returned, the user data and the output, or a fault. A header
  block that holds no NUL gives a fault: \<^verbatim>\<open>strstr\<close> reads \<^verbatim>\<open>szName\<close> past the header.
\<close>

partial_function (option) nExtract_loop ::
  "string \<Rightarrow> 'u matcher option \<Rightarrow> gzFile \<Rightarrow> 'u \<Rightarrow> event list
   \<Rightarrow> (fault + int \<times> 'u \<times> event list) option" where
  "nExtract_loop szTargetDir pfnMatcher gz pUserData log =
     (case gzread gz TAR_BLOCK_SIZE of
        (stHeader, gz1) \<Rightarrow>
          if length stHeader \<noteq> TAR_BLOCK_SIZE then
            (if gzeof gz1 then Some (Inr (0, pUserData, log))
             else Some (Inr (-1, pUserData, log @ [Err_unexpected_end])))
          else if stHeader ! 0 = NUL then Some (Inr (0, pUserData, log))
          else if NUL \<notin> set stHeader then Some (Inl OutOfBounds)
          else if strstr (hdr_szName stHeader) ''../''
                  \<or> strstr (hdr_szName stHeader) [CHR ''.'', CHR ''.'', CHR 0x5C]
          then
            nExtract_loop szTargetDir pfnMatcher
              (gzseek gz1 (skip_offset (ulParseOctal (hdr_szSize stHeader) 12)))
              pUserData (log @ [Warn_unsafe_path (hdr_szName stHeader)])
          else
            (let ulFileSize = ulParseOctal (hdr_szSize stHeader) 12 in
             if (hdr_cTypeflag stHeader = CHR ''0'' \<or> hdr_cTypeflag stHeader = NUL)
                \<and> bIsInDirectory (hdr_szName stHeader) szTargetDir
             then
               (let szFilename =
                      (case strrchr (hdr_szName stHeader) (CHR ''/'') of
                         Some k \<Rightarrow> drop (k + 1) (hdr_szName stHeader)
                       | None \<Rightarrow> hdr_szName stHeader)
                in
                if szFilename = [] then
                  nExtract_loop szTargetDir pfnMatcher (gzseek gz1 (skip_offset ulFileSize))
                    pUserData log
                else
                  (case pfnMatcher of
                     None \<Rightarrow> Some (extract_entry gz1 ulFileSize pUserData log)
                   | Some matcher \<Rightarrow>
                       (case matcher szFilename pUserData of
                          (r, pUserData') \<Rightarrow>
                            if r = 0 then
                              nExtract_loop szTargetDir pfnMatcher
                                (gzseek gz1 (skip_offset ulFileSize)) pUserData' log
                            else Some (extract_entry gz1 ulFileSize pUserData' log))))
             else
               nExtract_loop szTargetDir pfnMatcher (gzseek gz1 (skip_offset ulFileSize))
                 pUserData log))"

declare read_content.simps [simp del]

text \<open>\<^verbatim>\<open>gzopen\<close> gives the stream, or nothing when the file cannot be opened.\<close>

definition nExtractFromTargzWithCallback ::
  "gzFile option \<Rightarrow> string \<Rightarrow> 'u matcher option \<Rightarrow> 'u
   \<Rightarrow> (fault + int \<times> 'u \<times> event list) option" where
  "nExtractFromTargzWithCallback gzTarFile szTargetDir pfnMatcher pUserData =
     (case gzTarFile of
        None \<Rightarrow> Some (Inr (-1, pUserData, [Err_cannot_open]))
      | Some gz \<Rightarrow> nExtract_loop szTargetDir pfnMatcher gz pUserData [])"

subsection \<open>bParseDate\<close>

record fileDateT =
  nYear :: int
  nMonth :: int
  nDay :: int
  nHour :: int
  nMinute :: int
  nSecond :: int
  szFilename :: string
  tTimestamp :: int

text \<open>The fields of \<^verbatim>\<open>struct tm\<close> that the program sets; the others are zero.\<close>

record tm =
  tm_year :: int
  tm_mon :: int
  tm_mday :: int
  tm_hour :: int
  tm_min :: int
  tm_sec :: int

text \<open>
  \<^verbatim>\<open>sscanf_s(szDateStr, "%d-%d-%d_%d:%d:%d", ...)\<close> belongs to the C library. A \<^verbatim>\<open>%d\<close>
  skips white space, takes an optional sign and then decimal digits, at least one; a
  literal of the format must match the next character; the scan stops at the first
  failure, and whatever follows the sixth number is not looked at. Each number is
  stored in an \<^verbatim>\<open>int\<close> of 32 bits: of a number that does not fit, the low 32 bits are
  stored, as two's complement (the C standard leaves such a number undefined; this is
  what the C library does with it).
\<close>

definition to_c_int :: "int \<Rightarrow> int" where
  "to_c_int n =
     (let m = n mod 2 ^ 32 in if m < 2 ^ 31 then m else m - 2 ^ 32)"

definition isspace :: "char \<Rightarrow> bool" where
  "isspace c = (c \<in> set [CHR '' '', TAB, LF, CHR 0x0B, CHR 0x0C, CR])"

definition isdigit :: "char \<Rightarrow> bool" where
  "isdigit c = (c \<in> set ''0123456789'')"

definition digit_value :: "char \<Rightarrow> int" where
  "digit_value c = schar c - schar (CHR ''0'')"

fun scan_digits :: "string \<Rightarrow> int \<Rightarrow> int \<times> string" where
  "scan_digits [] acc = (acc, [])"
| "scan_digits (c # cs) acc =
     (if isdigit c then scan_digits cs (acc * 10 + digit_value c) else (acc, c # cs))"

text \<open>
  One \<^verbatim>\<open>%d\<close>: the number stored and the rest of the input, or \<open>None\<close>. \<open>scan_number\<close>
  reads the digits after the optional sign.
\<close>

definition scan_number :: "bool \<Rightarrow> string \<Rightarrow> (int \<times> string) option" where
  "scan_number neg s =
     (case s of
        [] \<Rightarrow> None
      | c # cs \<Rightarrow>
          if isdigit c
          then (case scan_digits s 0 of
                  (v, rest) \<Rightarrow> Some (to_c_int (if neg then - v else v), rest))
          else None)"

definition scan_d :: "string \<Rightarrow> (int \<times> string) option" where
  "scan_d s =
     (case dropWhile isspace s of
        [] \<Rightarrow> None
      | c # cs \<Rightarrow>
          if c = CHR ''-'' then scan_number True cs
          else if c = CHR ''+'' then scan_number False cs
          else scan_number False (c # cs))"

text \<open>
  The numbers assigned, in order, for a format that is \<^verbatim>\<open>%d\<close>, then each of the given
  literals followed by a \<^verbatim>\<open>%d\<close>. The length of the list is what \<^verbatim>\<open>sscanf_s\<close> returns (or
  the list is empty where it returns \<^verbatim>\<open>EOF\<close>).
\<close>

fun scan_fields :: "string \<Rightarrow> string \<Rightarrow> int list" where
  "scan_fields [] s =
     (case scan_d s of
        None \<Rightarrow> []
      | Some (v, rest) \<Rightarrow> [v])"
| "scan_fields (l # lits) s =
     (case scan_d s of
        None \<Rightarrow> []
      | Some (v, rest) \<Rightarrow>
          v # (case rest of
                 [] \<Rightarrow> []
               | x # rest' \<Rightarrow> if x = l then scan_fields lits rest' else []))"

definition sscanf_date :: "string \<Rightarrow> int list" where
  "sscanf_date szDateStr = scan_fields ''--_::'' szDateStr"

text \<open>
  The three ways \<^verbatim>\<open>bParseDate\<close> returns 0, told apart by the message it prints:
  \<^verbatim>\<open>Date parsing failed\<close>, \<^verbatim>\<open>Invalid date components\<close> and
  \<^verbatim>\<open>Failed to convert date to timestamp\<close>.
\<close>

datatype date_error = Malformed | OutOfRange | TimestampFailed

text \<open>
  \<^verbatim>\<open>mktime\<close> belongs to the C library and depends on the time zone of the machine: it is
  a parameter. \<open>Inr\<close> carries \<^verbatim>\<open>*pDate\<close> as filled in, and stands for the return value 1.
\<close>

definition bParseDate :: "(tm \<Rightarrow> int) \<Rightarrow> string \<Rightarrow> fileDateT \<Rightarrow> date_error + fileDateT" where
  "bParseDate mktime szDateStr pDate =
     (case sscanf_date szDateStr of
        [y, mo, d, h, mi, se] \<Rightarrow>
          if y < 1970 \<or> y > 2100 \<or> mo < 1 \<or> mo > 12 \<or> d < 1 \<or> d > 31
             \<or> h < 0 \<or> h > 23 \<or> mi < 0 \<or> mi > 59 \<or> se < 0 \<or> se > 59
          then Inl OutOfRange
          else
            (let t = mktime \<lparr>tm_year = y - 1900, tm_mon = mo - 1, tm_mday = d,
                             tm_hour = h, tm_min = mi, tm_sec = se\<rparr>
             in if t = -1 then Inl TimestampFailed
                else Inr (pDate\<lparr>nYear := y, nMonth := mo, nDay := d, nHour := h,
                                 nMinute := mi, nSecond := se, tTimestamp := t\<rparr>))
      | _ \<Rightarrow> Inl Malformed)"

definition bParseDate_ret :: "date_error + fileDateT \<Rightarrow> int" where
  "bParseDate_ret r = (case r of Inl e \<Rightarrow> 0 | Inr d \<Rightarrow> 1)"

text \<open>
  An instance of \<^verbatim>\<open>mktime\<close> for examples: the time zone UTC, with the day count of the
  proleptic Gregorian calendar. Days past the end of a month run on into the next, as
  \<^verbatim>\<open>mktime\<close> normalises them.
\<close>

definition days_from_civil :: "int \<Rightarrow> int \<Rightarrow> int \<Rightarrow> int" where
  "days_from_civil y m d =
     (let y' = (if m \<le> 2 then y - 1 else y);
          era = y' div 400;
          yoe = y' - era * 400;
          doy = (153 * ((m + 9) mod 12) + 2) div 5 + d - 1;
          doe = yoe * 365 + yoe div 4 - yoe div 100 + doy
      in era * 146097 + doe - 719468)"

definition mktime_utc :: "tm \<Rightarrow> int" where
  "mktime_utc t =
     days_from_civil (tm_year t + 1900) (tm_mon t + 1) (tm_mday t) * 86400
       + tm_hour t * 3600 + tm_min t * 60 + tm_sec t"

subsection \<open>The matchers and nExtractLatestBdcDailyFile\<close>

record matcherDataT =
  szPrefix :: string
  stLatestFile :: fileDateT
  bFoundMatch :: int

text \<open>\<^verbatim>\<open>memset(&stCurrentFile, 0, sizeof(fileDateT))\<close>.\<close>

definition zero_fileDateT :: fileDateT where
  "zero_fileDateT =
     \<lparr>nYear = 0, nMonth = 0, nDay = 0, nHour = 0, nMinute = 0, nSecond = 0,
      szFilename = [], tTimestamp = 0\<rparr>"

text \<open>
  The first pass. The date text starts after the first \<^verbatim>\<open>'_'\<close> that follows the prefix.
  The copy of the name into \<^verbatim>\<open>szFilename[MAX_PATH_LENGTH]\<close> fails for a name that does not
  fit. The matcher always returns 0. (The parameter \<^verbatim>\<open>szFilename\<close> is written
  \<open>szFilename'\<close>: the name is the field's.)
\<close>

definition bLatestBdcDailyMatcher :: "(tm \<Rightarrow> int) \<Rightarrow> matcherDataT matcher" where
  "bLatestBdcDailyMatcher mktime szFilename' pData =
     (if \<not> strncmp_eq szFilename' (szPrefix pData) (length (szPrefix pData)) then (0, pData)
      else
        (case strchr (drop (length (szPrefix pData)) szFilename') (CHR ''_'') of
           None \<Rightarrow> (0, pData)
         | Some k \<Rightarrow>
             (let szDatePart = drop (length (szPrefix pData) + k + 1) szFilename' in
              case strncpy_s_TRUNCATE MAX_PATH_LENGTH szFilename' of
                (e, szCopy) \<Rightarrow>
                  if e \<noteq> 0 then (0, pData)
                  else
                    (case bParseDate mktime szDatePart (zero_fileDateT\<lparr>szFilename := szCopy\<rparr>) of
                       Inl err \<Rightarrow> (0, pData)
                     | Inr stCurrentFile \<Rightarrow>
                         if bFoundMatch pData = 0
                            \<or> tTimestamp stCurrentFile > tTimestamp (stLatestFile pData)
                         then (0, pData\<lparr>stLatestFile := stCurrentFile, bFoundMatch := 1\<rparr>)
                         else (0, pData)))))"

text \<open>The second pass: \<^verbatim>\<open>strcmp(szFilename, pData->stLatestFile.szFilename) == 0\<close>.\<close>

definition bExtractLatestFileMatcher :: "matcherDataT matcher" where
  "bExtractLatestFileMatcher szFilename' pData =
     (if szFilename' = szFilename (stLatestFile pData) then (1, pData) else (0, pData))"

text \<open>
  The archive is what \<^verbatim>\<open>gzopen\<close> gives for the path; each pass opens it afresh. The
  result is the value returned and the output of the whole run, or a fault, or \<open>None\<close>
  when one of the passes does not return.
\<close>

definition nExtractLatestBdcDailyFile ::
  "(tm \<Rightarrow> int) \<Rightarrow> gzFile option \<Rightarrow> string \<Rightarrow> (fault + int \<times> event list) option" where
  "nExtractLatestBdcDailyFile mktime gzTarFile szTargetDir =
     (let stData = \<lparr>szPrefix = ''BDC_Daily_version'', stLatestFile = zero_fileDateT,
                    bFoundMatch = 0\<rparr>
      in case nExtractFromTargzWithCallback gzTarFile szTargetDir
                (Some (bLatestBdcDailyMatcher mktime)) stData of
           None \<Rightarrow> None
         | Some (Inl f) \<Rightarrow> Some (Inl f)
         | Some (Inr (nResult, stData1, log1)) \<Rightarrow>
             if nResult \<noteq> 0 then Some (Inr (nResult, Out_parsing # log1 @ [Err_analyze]))
             else if bFoundMatch stData1 = 0
             then Some (Inr (-1, Out_parsing # log1 @ [Err_no_match]))
             else
               (case nExtractFromTargzWithCallback gzTarFile szTargetDir
                       (Some bExtractLatestFileMatcher) stData1 of
                  None \<Rightarrow> None
                | Some (Inl f) \<Rightarrow> Some (Inl f)
                | Some (Inr (nResult2, stData2, log2)) \<Rightarrow>
                    Some (Inr (nResult2,
                         Out_parsing # log1
                           @ [Out_latest (szFilename (stLatestFile stData1)), Out_checking]
                           @ log2))))"

section \<open>Notions used in the statements\<close>

subsection \<open>Octal fields\<close>




subsection \<open>Rows and fields of a CSV text\<close>

text \<open>The header line: the text before the first newline.\<close>

definition csv_header_line :: "string \<Rightarrow> string" where
  "csv_header_line csvText = takeWhile (\<lambda>c. c \<noteq> LF) csvText"

text \<open>
  The fields of a line: it is cut at every comma outside double quotes, and a double
  quote opens or closes a quoted stretch. The arguments are the rest of the line,
  whether a quoted stretch is open, and the field read so far.
\<close>

fun csv_split :: "string \<Rightarrow> bool \<Rightarrow> string \<Rightarrow> string list" where
  "csv_split [] inq tok = [tok]"
| "csv_split (c # cs) inq tok =
     (if c = DQUOTE then csv_split cs (\<not> inq) (tok @ [c])
      else if c = CHR '','' \<and> \<not> inq then tok # csv_split cs inq []
      else csv_split cs inq (tok @ [c]))"

definition csv_fields :: "string \<Rightarrow> string list" where
  "csv_fields line = csv_split line False []"

text \<open>The number of fields of the rest of a line.\<close>

fun csv_count_fields :: "string \<Rightarrow> bool \<Rightarrow> nat" where
  "csv_count_fields [] inq = 1"
| "csv_count_fields (c # cs) inq =
     (if c = DQUOTE then csv_count_fields cs (\<not> inq)
      else if c = CHR '','' \<and> \<not> inq then Suc (csv_count_fields cs inq)
      else csv_count_fields cs inq)"

text \<open>
  The row that \<open>nGetCSVDataByColName\<close> tokenizes for a text with a newline after the
  header: the line at which the row selection of the code arrives.
\<close>

definition csv_selected_row :: "string \<Rightarrow> int \<Rightarrow> string option" where
  "csv_selected_row csvText nRow =
     (case strchr csvText LF of
        None \<Rightarrow> None
      | Some k \<Rightarrow> map_option csv_header_line (csv_select_row (drop (k + 1) csvText) nRow))"

subsection \<open>The date pattern\<close>

text \<open>
  The exact shape \<^verbatim>\<open>YYYY-MM-DD_HH:MM:SS\<close>: nineteen characters, digits everywhere but
  at the five separators.
\<close>

definition date_shape :: "string \<Rightarrow> bool" where
  "date_shape s =
     (length s = 19
      \<and> list_all isdigit (map (\<lambda>i. s ! i) [0, 1, 2, 3, 5, 6, 8, 9, 11, 12, 14, 15, 17, 18])
      \<and> map (\<lambda>i. s ! i) [4, 7, 10, 13, 16] = ''--_::'')"

definition dec2 :: "char \<Rightarrow> char \<Rightarrow> int" where
  "dec2 a b = digit_value a * 10 + digit_value b"

definition dec4 :: "char \<Rightarrow> char \<Rightarrow> char \<Rightarrow> char \<Rightarrow> int" where
  "dec4 a b c d = ((digit_value a * 10 + digit_value b) * 10 + digit_value c) * 10 + digit_value d"

text \<open>The six numbers written in a string of that shape.\<close>

definition shape_year :: "string \<Rightarrow> int" where
  "shape_year s = dec4 (s ! 0) (s ! 1) (s ! 2) (s ! 3)"

definition shape_month :: "string \<Rightarrow> int" where
  "shape_month s = dec2 (s ! 5) (s ! 6)"

definition shape_day :: "string \<Rightarrow> int" where
  "shape_day s = dec2 (s ! 8) (s ! 9)"

definition shape_hour :: "string \<Rightarrow> int" where
  "shape_hour s = dec2 (s ! 11) (s ! 12)"

definition shape_minute :: "string \<Rightarrow> int" where
  "shape_minute s = dec2 (s ! 14) (s ! 15)"

definition shape_second :: "string \<Rightarrow> int" where
  "shape_second s = dec2 (s ! 17) (s ! 18)"

definition date_in_range :: "string \<Rightarrow> bool" where
  "date_in_range s =
     (1970 \<le> shape_year s \<and> shape_year s \<le> 2100
      \<and> 1 \<le> shape_month s \<and> shape_month s \<le> 12
      \<and> 1 \<le> shape_day s \<and> shape_day s \<le> 31
      \<and> 0 \<le> shape_hour s \<and> shape_hour s \<le> 23
      \<and> 0 \<le> shape_minute s \<and> shape_minute s \<le> 59
      \<and> 0 \<le> shape_second s \<and> shape_second s \<le> 59)"

definition shape_tm :: "string \<Rightarrow> tm" where
  "shape_tm s =
     \<lparr>tm_year = shape_year s - 1900, tm_mon = shape_month s - 1, tm_mday = shape_day s,
      tm_hour = shape_hour s, tm_min = shape_minute s, tm_sec = shape_second s\<rparr>"

subsection \<open>The first pass\<close>





text \<open>
  The names that the archive reader hands to its callback, in order, when the callback
  declines every file: the base names of the regular files under the target directory
  that the scan reaches. They are collected by running the reader with a callback that
  records its argument; there are none to speak of when that run does not return.
\<close>

definition scanned_names :: "gzFile option \<Rightarrow> string \<Rightarrow> string list" where
  "scanned_names gzTarFile szTargetDir =
     (case nExtractFromTargzWithCallback gzTarFile szTargetDir
             (Some (\<lambda>f ns. (0, ns @ [f]))) [] of
        Some (Inr (ret, ns, log)) \<Rightarrow> ns
      | _ \<Rightarrow> [])"






text \<open>
  The choice the first pass makes among the candidates met so far: a later candidate
  replaces the best one only when its timestamp is strictly greater.
\<close>

fun latest_of :: "(string \<times> int) option \<Rightarrow> (string \<times> int) list \<Rightarrow> (string \<times> int) option" where
  "latest_of best [] = best"
| "latest_of None (c # cs) = latest_of (Some c) cs"
| "latest_of (Some b) (c # cs) = latest_of (Some (if snd c > snd b then c else b)) cs"


subsection \<open>Example archives\<close>

text \<open>
  A tar header block with the given name, size field and type flag, all other bytes
  NUL; file content padded with NULs to whole blocks.
\<close>

definition mk_header :: "string \<Rightarrow> string \<Rightarrow> char \<Rightarrow> string" where
  "mk_header name sz flag =
     name @ replicate (124 - length name) NUL @ sz @ replicate (12 - length sz) NUL
       @ replicate 20 NUL @ [flag] @ replicate 355 NUL"

definition pad_block :: "string \<Rightarrow> string" where
  "pad_block d = d @ replicate ((512 - length d mod 512) mod 512) NUL"

definition example_csv :: string where
  "example_csv = ''TimeStamp,CycleCount\<newline>2025-05-14 20:15:23,253\<newline>''"



text \<open>
  An archive whose first entry has an unsafe name and a size field of
  \<^verbatim>\<open>37777777777\<close> (octal for \<open>2 ^ 32 - 1\<close>); the bytes after its header, all within the
  data it declares, are the header and the content of a daily log.
\<close>

definition overflow_archive :: gzFile where
  "overflow_archive =
     \<lparr>gz_before = [],
      gz_data =
        mk_header ''../x'' ''37777777777'' (CHR ''0'')
        @ mk_header ''logs/BatteryBDC/BDC_Daily_version_2025-05-14_20:30:45.csv'' ''00000000055''
          (CHR ''0'') @ pad_block example_csv
        @ replicate 1024 NUL,
      gz_damaged = False\<rparr>"


section \<open>The octal field parser\<close>











section \<open>The CSV accessor\<close>

lemma strchr_less: "strchr s c = Some k \<Longrightarrow> k < length s"
  by (induction s arbitrary: k) (auto split: if_splits)

lemma strchr_None: "strchr s c = None \<longleftrightarrow> c \<notin> set s"
  by (induction s) auto

lemma strchr_takeWhile:
  "(case strchr s c of Some k \<Rightarrow> k | None \<Rightarrow> length s) = length (takeWhile (\<lambda>x. x \<noteq> c) s)"
  by (induction s) (auto split: option.splits)

lemma strchr_Some_takeWhile:
  "strchr s c = Some k \<Longrightarrow> take k s = takeWhile (\<lambda>x. x \<noteq> c) s"
  by (induction s arbitrary: k) (auto split: if_splits)

lemma strchr_append: "c \<notin> set h \<Longrightarrow> strchr (h @ c # r) c = Some (length h)"
  by (induction h) auto

lemma take_header_line:
  "take (case strchr s LF of Some k \<Rightarrow> k | None \<Rightarrow> length s) s = csv_header_line s"
  unfolding strchr_takeWhile csv_header_line_def by (rule takeWhile_eq_take [symmetric])

lemma csv_header_loop_eq:
  "length cols \<le> MAX_COLUMNS \<Longrightarrow>
   csv_header_loop s inq tok cols = take MAX_COLUMNS (cols @ map csv_trim (csv_split s inq tok))"
proof (induction s arbitrary: inq tok cols)
  case Nil
  then show ?case by (simp add: MAX_COLUMNS_def)
next
  case (Cons c s)
  show ?case
  proof (cases "length cols < MAX_COLUMNS")
    case False
    with Cons.prems show ?thesis by simp
  next
    case True
    then have le: "length (cols @ [csv_trim tok]) \<le> MAX_COLUMNS" by simp
    show ?thesis using True Cons.IH [OF Cons.prems] Cons.IH [OF le] by simp
  qed
qed

lemma csv_header_columns:
  "csv_header_loop h False [] [] = take MAX_COLUMNS (map csv_trim (csv_fields h))"
  using csv_header_loop_eq [of "[]" h False "[]"] by (simp add: csv_fields_def)

lemma csv_header_loop_nonempty: "csv_header_loop h False [] [] \<noteq> []"
proof -
  have "csv_split h inq tok \<noteq> []" for inq tok
    by (induction h arbitrary: inq tok) auto
  then show ?thesis by (simp add: csv_header_columns csv_fields_def MAX_COLUMNS_def)
qed

lemma csv_target_col_None: "csv_target_col cols name i = None \<longleftrightarrow> name \<notin> set cols"
  by (induction cols arbitrary: i) auto

lemma csv_target_col_hd: "cols \<noteq> [] \<Longrightarrow> csv_target_col cols (hd cols) i = Some i"
  by (cases cols) auto

lemma length_csv_split: "length (csv_split r inq tok) = csv_count_fields r inq"
  by (induction r arbitrary: inq tok) auto

lemma csv_row_loop_None:
  "cur \<le> tgt \<Longrightarrow>
   csv_row_loop r inq tok cur tgt = None \<longleftrightarrow> cur + csv_count_fields r inq \<le> tgt"
proof (induction r arbitrary: inq tok cur)
  case Nil
  then show ?case by auto
next
  case (Cons c r)
  show ?case
  proof (cases "c = CHR '','' \<and> \<not> inq \<and> c \<noteq> DQUOTE")
    case True
    show ?thesis
    proof (cases "cur = tgt")
      case True
      with \<open>c = CHR '','' \<and> \<not> inq \<and> c \<noteq> DQUOTE\<close> show ?thesis by simp
    next
      case False
      with Cons.prems have "cur + 1 \<le> tgt" by simp
      from Cons.IH [OF this, of inq "[]"] True False Cons.prems show ?thesis by simp
    qed
  next
    case False
    then show ?thesis using Cons.prems Cons.IH [OF Cons.prems] by auto
  qed
qed

lemma nGetCSV_unfold:
  assumes "0 < nBufSize"
  shows "nGetCSVDataByColName csvText nRow col nBufSize =
     (case csv_target_col (take MAX_COLUMNS (map csv_trim (csv_fields (csv_header_line csvText)))) col 0 of
        None \<Rightarrow> Inr (-3, [])
      | Some nTargetCol \<Rightarrow>
          if LF \<notin> set csvText then Inl OutOfBounds
          else
            (case csv_selected_row csvText nRow of
               None \<Rightarrow> Inr (-5, [])
             | Some row \<Rightarrow>
                 (case csv_row_loop row False [] 0 nTargetCol of
                    None \<Rightarrow> Inr (-4, [])
                  | Some szValue \<Rightarrow>
                      if length szValue < nBufSize then Inr (0, szValue)
                      else Inr (-6, take (nBufSize - 1) szValue))))"
proof (cases "strchr csvText LF")
  case None
  then have "LF \<notin> set csvText" by (simp add: strchr_None)
  with None assms show ?thesis
    unfolding nGetCSVDataByColName_def Let_def take_header_line csv_header_columns
    by (simp split: option.splits)
next
  case (Some k)
  then have "LF \<in> set csvText" using strchr_None [of csvText LF] by auto
  moreover have "k < length csvText" using Some by (rule strchr_less)
  ultimately show ?thesis using assms Some 
    unfolding nGetCSVDataByColName_def Let_def take_header_line csv_header_columns csv_selected_row_def
    by (simp add: csv_header_line_def strncpy_s_TRUNCATE_def split: option.splits)
qed


lemma csv_selected_row_header_only:
  assumes "LF \<notin> set h"
  shows "csv_selected_row (h @ [LF]) (-1) = Some []"
proof -
  have "csv_last_row [] [] = []"
    by (subst csv_last_row.simps) simp
  then show ?thesis
    using strchr_append [OF assms, of "[]"]
    by (simp add: csv_selected_row_def csv_select_row_def csv_header_line_def)
qed

lemma csv_header_line_append: "LF \<notin> set h \<Longrightarrow> csv_header_line (h @ LF # r) = h"
  unfolding csv_header_line_def by (induction h) auto

text \<open>
  Claim C10. For a text that is a header line ended by a newline and nothing else,
  asking for the last row (\<open>nRow = -1\<close>) does not fail with the code for a missing
  row (-5): for the first header column the call succeeds with the empty string, and
  for a column found at an index above zero it fails with -4, the code for a row
  that lacks the column.
\<close>

theorem header_only_last_row:
  "LF \<notin> set h \<Longrightarrow> 0 < nBufSize \<Longrightarrow>
     nGetCSVDataByColName (h @ [LF]) (-1) (hd (csv_header_loop h False [] [])) nBufSize
       = Inr (0, [])
     \<and> (\<forall>col k. csv_target_col (csv_header_loop h False [] []) col 0 = Some k \<and> 0 < k
           \<longrightarrow> nGetCSVDataByColName (h @ [LF]) (-1) col nBufSize = Inr (-4, []))"
proof (intro conjI allI impI)
  assume h: "LF \<notin> set h" and n: "0 < nBufSize"
  note u = nGetCSV_unfold [OF n, of "h @ [LF]" "-1"]
  show "nGetCSVDataByColName (h @ [LF]) (-1) (hd (csv_header_loop h False [] [])) nBufSize
        = Inr (0, [])"
    using csv_target_col_hd [OF csv_header_loop_nonempty, of h 0] n
    by (simp add: u csv_header_line_append [OF h] csv_selected_row_header_only [OF h]
        csv_header_columns [symmetric] csv_trim_def csv_trim_leading_def)
  show "nGetCSVDataByColName (h @ [LF]) (-1) col nBufSize = Inr (-4, [])"
    if "csv_target_col (csv_header_loop h False [] []) col 0 = Some k \<and> 0 < k" for col k
    using that
    by (simp add: u csv_header_line_append [OF h] csv_selected_row_header_only [OF h]
        csv_header_columns [symmetric])
qed

theorem header_only_last_row_witness:
  "nGetCSVDataByColName ''TimeStamp,CycleCount\<newline>'' (-1) ''TimeStamp'' 1024 = Inr (0, [])
   \<and> nGetCSVDataByColName ''TimeStamp,CycleCount\<newline>'' (-1) ''CycleCount'' 1024 = Inr (-4, [])"
proof -
  have h: "LF \<notin> set ''TimeStamp,CycleCount''" by simp
  have n: "(0::nat) < 1024" by simp
  have cols: "csv_header_loop ''TimeStamp,CycleCount'' False [] [] = [''TimeStamp'', ''CycleCount'']"
    by (simp add: MAX_COLUMNS_def csv_trim_def csv_trim_leading_def)
  note T = header_only_last_row [OF h n, unfolded cols]
  have 1: "nGetCSVDataByColName ''TimeStamp,CycleCount\<newline>'' (-1) ''TimeStamp'' 1024 = Inr (0, [])"
    using T [THEN conjunct1] by simp
  have 2: "nGetCSVDataByColName ''TimeStamp,CycleCount\<newline>'' (-1) ''CycleCount'' 1024 = Inr (-4, [])"
    using T [THEN conjunct2, rule_format, of "''CycleCount''" 1] by simp
  show ?thesis using 1 2 by (intro conjI)
qed

text \<open>
  Claim C5, as the code has it. The two failures have codes of their own: a column name
  that is not among the recorded header columns gives -3, and a selected row with no
  more fields than the index of the requested column gives -4.
\<close>

theorem ragged_row_code:
  "0 < nBufSize \<Longrightarrow>
     (col \<notin> set (csv_header_loop (csv_header_line csvText) False [] [])
        \<longrightarrow> nGetCSVDataByColName csvText nRow col nBufSize = Inr (-3, []))
     \<and> (\<forall>k row. csv_target_col (csv_header_loop (csv_header_line csvText) False [] []) col 0 = Some k
              \<and> csv_selected_row csvText nRow = Some row
              \<and> length (csv_fields row) \<le> k
           \<longrightarrow> nGetCSVDataByColName csvText nRow col nBufSize = Inr (-4, []))"
proof (intro conjI allI impI)
  assume n: "0 < nBufSize"
  note u = nGetCSV_unfold [OF n, of csvText nRow col]
  show "nGetCSVDataByColName csvText nRow col nBufSize = Inr (-3, [])"
    if "col \<notin> set (csv_header_loop (csv_header_line csvText) False [] [])"
    using that csv_target_col_None [of "csv_header_loop (csv_header_line csvText) False [] []" col 0]
    by (simp add: u csv_header_columns [symmetric])
  show "nGetCSVDataByColName csvText nRow col nBufSize = Inr (-4, [])"
    if a: "csv_target_col (csv_header_loop (csv_header_line csvText) False [] []) col 0 = Some k
        \<and> csv_selected_row csvText nRow = Some row
        \<and> length (csv_fields row) \<le> k" for k row
  proof -
    from a have "LF \<in> set csvText"
      using strchr_None [of csvText LF] by (auto simp: csv_selected_row_def split: option.splits)
    moreover from a have "csv_row_loop row False [] 0 k = None"
      using csv_row_loop_None [of 0 k row False "[]"]
      by (simp add: csv_fields_def length_csv_split)
    ultimately show ?thesis using a by (simp add: u csv_header_columns [symmetric])
  qed
qed

theorem ragged_row_code_witness:
  "nGetCSVDataByColName ''TimeStamp,CycleCount\<newline>2025-05-14 20:15:23\<newline>'' 0 ''CycleCount'' 1024
     = Inr (-4, [])
   \<and> nGetCSVDataByColName ''TimeStamp,CycleCount\<newline>2025-05-14 20:15:23\<newline>'' 0 ''Voltage'' 1024
     = Inr (-3, [])"
proof -
  let ?t = "''TimeStamp,CycleCount\<newline>2025-05-14 20:15:23\<newline>''"
  have n: "(0::nat) < 1024" by simp
  have hl: "csv_header_line ?t = ''TimeStamp,CycleCount''"
    by (simp add: csv_header_line_def)
  have cols: "csv_header_loop ''TimeStamp,CycleCount'' False [] [] = [''TimeStamp'', ''CycleCount'']"
    by (simp add: MAX_COLUMNS_def csv_trim_def csv_trim_leading_def)
  have row: "csv_selected_row ?t 0 = Some ''2025-05-14 20:15:23''"
    by (simp add: csv_selected_row_def csv_select_row_def csv_header_line_def)
  have 1: "nGetCSVDataByColName ?t 0 ''CycleCount'' 1024 = Inr (-4, [])"
    by (rule ragged_row_code [OF n, of "''CycleCount''" ?t 0, unfolded hl cols,
          THEN conjunct2, rule_format, of 1 "''2025-05-14 20:15:23''"])
       (simp add: row csv_fields_def)
  have 2: "nGetCSVDataByColName ?t 0 ''Voltage'' 1024 = Inr (-3, [])"
    by (rule ragged_row_code [OF n, of "''Voltage''" ?t 0, unfolded hl cols,
          THEN conjunct1, rule_format]) simp
  show ?thesis using 1 2 by (intro conjI)
qed

theorem ragged_row_code_counterexample:
  "nGetCSVDataByColName ''A,B\<newline>1\<newline>'' 0 ''B'' 1024 = Inr (-4, [])
   \<and> nGetCSVDataByColName ''A,B\<newline>1\<newline>'' 0 ''C'' 1024 = Inr (-3, [])
   \<and> nGetCSVDataByColName ''A,B\<newline>1\<newline>'' 0 ''B'' 1024
       \<noteq> nGetCSVDataByColName ''A,B\<newline>1\<newline>'' 0 ''C'' 1024"
  by code_simp


text \<open>
  Claim C6, as the code has it. A header with more than \<open>MAX_COLUMNS\<close> columns is no
  error: the first 256 names are recorded and the rest ignored. A name that is not
  among them gives -3, a name among them does not, and the only codes the function
  returns are 0, -1, -3, -4, -5 and -6.
\<close>

theorem header_columns_capped:
  "csv_header_loop h False [] [] = take MAX_COLUMNS (map csv_trim (csv_fields h))
   \<and> (0 < nBufSize
        \<and> col \<notin> set (take MAX_COLUMNS (map csv_trim (csv_fields (csv_header_line csvText))))
       \<longrightarrow> nGetCSVDataByColName csvText nRow col nBufSize = Inr (-3, []))
   \<and> (0 < nBufSize
        \<and> col \<in> set (take MAX_COLUMNS (map csv_trim (csv_fields (csv_header_line csvText))))
       \<longrightarrow> (\<forall>v. nGetCSVDataByColName csvText nRow col nBufSize \<noteq> Inr (-3, v)))
   \<and> (\<forall>c v. nGetCSVDataByColName csvText nRow col nBufSize = Inr (c, v)
          \<longrightarrow> c \<in> {0, -1, -3, -4, -5, -6})"
proof (intro conjI allI impI)
  let ?cols = "take MAX_COLUMNS (map csv_trim (csv_fields (csv_header_line csvText)))"
  show "csv_header_loop h False [] [] = take MAX_COLUMNS (map csv_trim (csv_fields h))"
    by (rule csv_header_columns)
  show "nGetCSVDataByColName csvText nRow col nBufSize = Inr (-3, [])"
    if "0 < nBufSize \<and> col \<notin> set ?cols"
    using that csv_target_col_None [of ?cols col 0] by (simp add: nGetCSV_unfold)
  show "nGetCSVDataByColName csvText nRow col nBufSize \<noteq> Inr (-3, v)"
    if "0 < nBufSize \<and> col \<in> set ?cols" for v
  proof -
    from that obtain k where "csv_target_col ?cols col 0 = Some k"
      using csv_target_col_None [of ?cols col 0] by (cases "csv_target_col ?cols col 0") auto
    with that show ?thesis by (simp add: nGetCSV_unfold split: option.splits)
  qed
  show "c \<in> {0, -1, -3, -4, -5, -6}"
    if r: "nGetCSVDataByColName csvText nRow col nBufSize = Inr (c, v)" for c v
  proof (cases "0 < nBufSize")
    case True
    from r show ?thesis
      unfolding nGetCSV_unfold [OF True] by (auto split: option.splits if_splits)
  next
    case False
    with r show ?thesis by (simp add: nGetCSVDataByColName_def)
  qed
qed

theorem header_columns_capped_witness:
  "csv_header_loop (replicate 256 (CHR '','') @ ''Z'') False [] [] = replicate 256 []
   \<and> nGetCSVDataByColName (replicate 256 (CHR '','') @ ''Z\<newline>1\<newline>'') 0 ''Z'' 1024 = Inr (-3, [])
   \<and> nGetCSVDataByColName (replicate 256 (CHR '','') @ ''Z\<newline>1\<newline>'') 0 [] 1024 \<noteq> Inr (-3, [])
   \<and> nGetCSVDataByColName ''A,B\<newline>1\<newline>'' 0 ''A'' 1024 = Inr (0, ''1'')"
proof -
  let ?h = "replicate 256 (CHR '','') @ ''Z''"
  let ?t = "replicate 256 (CHR '','') @ ''Z\<newline>1\<newline>''"
  have f: "take MAX_COLUMNS (map csv_trim (csv_fields ?h)) = replicate 256 []"
    by code_simp
  have hl: "csv_header_line ?t = ?h"
    by code_simp
  have 1: "csv_header_loop ?h False [] [] = replicate 256 []"
    using header_columns_capped [of ?h, THEN conjunct1] by (simp only: f)
  have 2: "nGetCSVDataByColName ?t 0 ''Z'' 1024 = Inr (-3, [])"
    by (rule header_columns_capped [of _ 1024 "''Z''" ?t 0, THEN conjunct2, THEN conjunct1,
          rule_format]) (simp add: hl f)
  have 3: "nGetCSVDataByColName ?t 0 [] 1024 \<noteq> Inr (-3, [])"
    by (rule header_columns_capped [of _ 1024 "[]" ?t 0, THEN conjunct2, THEN conjunct2,
          THEN conjunct1, rule_format]) (simp add: hl f)
  have v: "nGetCSVDataByColName ''A,B\<newline>1\<newline>'' 0 ''A'' 1024 = Inr (0, ''1'')"
    by code_simp
  show ?thesis using 1 2 3 v by (intro conjI)
qed

theorem header_columns_capped_counterexample:
  "length (csv_fields (''A'' @ replicate 256 (CHR '',''))) = 257
   \<and> csv_header_line (''A'' @ replicate 256 (CHR '','') @ ''\<newline>1\<newline>'')
       = ''A'' @ replicate 256 (CHR '','')
   \<and> nGetCSVDataByColName (''A'' @ replicate 256 (CHR '','') @ ''\<newline>1\<newline>'') 0 ''A'' 1024
       = Inr (0, ''1'')"
  by code_simp

text \<open>
  Claim C2 at the input where the code departs from it: a field that is a lone carriage
  return (the empty last field of a line ended by CR LF) is returned as it is, because
  the trimming loop stops at the first character of the token.
\<close>

theorem lone_carriage_return_kept:
  "nGetCSVDataByColName (''A,B'' @ [CR, LF] @ ''1,'' @ [CR, LF]) 0 ''B'' 1024 = Inr (0, [CR])"
  by code_simp

text \<open>
  Claim C4 at the input where the code departs from it: with \<open>nRow = -1\<close> a last line
  that has no newline after it is passed over, and the line before it is read.
\<close>

theorem unterminated_last_row_ignored:
  "nGetCSVDataByColName ''A\<newline>1\<newline>2'' (-1) ''A'' 1024 = Inr (0, ''1'')"
  by code_simp

text \<open>
  Claim C9 at the input where the code departs from it: for a text without a newline
  whose header has the column, the row pointer is set past the end of the private copy,
  and what follows reads and writes outside it.
\<close>

theorem no_newline_out_of_bounds:
  "nGetCSVDataByColName ''TimeStamp,CycleCount'' (-1) ''TimeStamp'' 1024 = Inl OutOfBounds"
  by code_simp

section \<open>The date parser\<close>

lemma isdigit_facts:
  "isdigit c \<Longrightarrow> \<not> isspace c \<and> c \<noteq> CHR ''-'' \<and> c \<noteq> CHR ''+''"
  by (auto simp: isdigit_def isspace_def)

lemma scan_digits_2:
  "isdigit a \<Longrightarrow> isdigit b \<Longrightarrow> r = [] \<or> \<not> isdigit (hd r) \<Longrightarrow>
   scan_digits (a # b # r) 0 = (dec2 a b, r)"
  by (cases r) (auto simp: dec2_def)

lemma scan_digits_4:
  "isdigit a \<Longrightarrow> isdigit b \<Longrightarrow> isdigit c \<Longrightarrow> isdigit d \<Longrightarrow> r = [] \<or> \<not> isdigit (hd r) \<Longrightarrow>
   scan_digits (a # b # c # d # r) 0 = (dec4 a b c d, r)"
  by (cases r) (auto simp: dec4_def)

lemma digit_value_range:
  "isdigit c \<Longrightarrow> 0 \<le> digit_value c \<and> digit_value c \<le> 9"
  by (auto simp: isdigit_def digit_value_def schar_def)

lemma to_c_int_small:
  "0 \<le> n \<Longrightarrow> n < 2 ^ 31 \<Longrightarrow> to_c_int n = n"
  by (simp add: to_c_int_def)

lemma to_c_int_dec2:
  "isdigit a \<Longrightarrow> isdigit b \<Longrightarrow> to_c_int (dec2 a b) = dec2 a b"
  using digit_value_range [of a] digit_value_range [of b]
  by (intro to_c_int_small) (simp_all add: dec2_def)

lemma to_c_int_dec4:
  "isdigit a \<Longrightarrow> isdigit b \<Longrightarrow> isdigit c \<Longrightarrow> isdigit d \<Longrightarrow>
   to_c_int (dec4 a b c d) = dec4 a b c d"
  using digit_value_range [of a] digit_value_range [of b] digit_value_range [of c]
    digit_value_range [of d]
  by (intro to_c_int_small) (simp_all add: dec4_def)

lemma scan_d_2:
  "isdigit a \<Longrightarrow> isdigit b \<Longrightarrow> r = [] \<or> \<not> isdigit (hd r) \<Longrightarrow>
   scan_d (a # b # r) = Some (dec2 a b, r)"
  using isdigit_facts [of a]
  by (simp add: scan_d_def scan_number_def scan_digits_2 to_c_int_dec2 del: scan_digits.simps)

lemma scan_d_4:
  "isdigit a \<Longrightarrow> isdigit b \<Longrightarrow> isdigit c \<Longrightarrow> isdigit d \<Longrightarrow> r = [] \<or> \<not> isdigit (hd r) \<Longrightarrow>
   scan_d (a # b # c # d # r) = Some (dec4 a b c d, r)"
  using isdigit_facts [of a]
  by (simp add: scan_d_def scan_number_def scan_digits_4 to_c_int_dec4 del: scan_digits.simps)

lemma not_digit_seps:
  "\<not> isdigit (CHR ''-'')" "\<not> isdigit (CHR ''_'')" "\<not> isdigit (CHR '':'')"
  by (simp_all add: isdigit_def)

lemma sscanf_date_shape:
  assumes "list_all isdigit [y1, y2, y3, y4, m1, m2, d1, d2, h1, h2, n1, n2, s1, s2]"
    and "rest = [] \<or> \<not> isdigit (hd rest)"
  shows "sscanf_date ([y1, y2, y3, y4, CHR ''-'', m1, m2, CHR ''-'', d1, d2, CHR ''_'',
                       h1, h2, CHR '':'', n1, n2, CHR '':'', s1, s2] @ rest)
         = [dec4 y1 y2 y3 y4, dec2 m1 m2, dec2 d1 d2, dec2 h1 h2, dec2 n1 n2, dec2 s1 s2]"
  using assms
  by (simp add: sscanf_date_def scan_d_4 scan_d_2 not_digit_seps)


lemma list19:
  assumes "length s = 19"
  shows "s = [s ! 0, s ! 1, s ! 2, s ! 3, s ! 4, s ! 5, s ! 6, s ! 7, s ! 8, s ! 9, s ! 10,
              s ! 11, s ! 12, s ! 13, s ! 14, s ! 15, s ! 16, s ! 17, s ! 18]"
proof -
  have u: "[0..<19] = [0, 1, 2, 3, 4, 5, 6, 7, 8, 9, 10, 11, 12, 13, 14, 15, 16, 17, 18]"
    by code_simp
  have "s = map ((!) s) [0..<length s]" by (simp add: map_nth)
  then have "s = map ((!) s) [0, 1, 2, 3, 4, 5, 6, 7, 8, 9, 10, 11, 12, 13, 14, 15, 16, 17, 18]"
    by (simp only: assms u)
  then show ?thesis by simp
qed

lemma sscanf_date_of_shape:
  assumes sh: "date_shape s" and r: "rest = [] \<or> \<not> isdigit (hd rest)"
  shows "sscanf_date (s @ rest)
         = [shape_year s, shape_month s, shape_day s, shape_hour s, shape_minute s, shape_second s]"
proof -
  from sh have len: "length s = 19" by (simp add: date_shape_def)
  from sh have dig: "list_all isdigit [s ! 0, s ! 1, s ! 2, s ! 3, s ! 5, s ! 6, s ! 8, s ! 9,
                       s ! 11, s ! 12, s ! 14, s ! 15, s ! 17, s ! 18]"
    by (simp add: date_shape_def)
  from sh have sep: "s ! 4 = CHR ''-''" "s ! 7 = CHR ''-''" "s ! 10 = CHR ''_''"
      "s ! 13 = CHR '':''" "s ! 16 = CHR '':''"
    by (simp_all add: date_shape_def)
  have "s @ rest = [s ! 0, s ! 1, s ! 2, s ! 3, CHR ''-'', s ! 5, s ! 6, CHR ''-'', s ! 8, s ! 9,
                    CHR ''_'', s ! 11, s ! 12, CHR '':'', s ! 14, s ! 15, CHR '':'', s ! 17, s ! 18]
                   @ rest"
    using list19 [OF len] sep by simp
  then show ?thesis
    using sscanf_date_shape [OF dig r]
    by (simp only: shape_year_def shape_month_def shape_day_def shape_hour_def shape_minute_def
        shape_second_def)
qed

lemma bParseDate_Malformed:
  "bParseDate mktime t pDate = Inl Malformed \<longleftrightarrow> length (sscanf_date t) \<noteq> 6"
proof (cases "length (sscanf_date t) = 6")
  case True
  then obtain y mo d h mi se where "sscanf_date t = [y, mo, d, h, mi, se]"
    by (auto simp: length_Suc_conv eval_nat_numeral)
  then show ?thesis by (simp add: bParseDate_def Let_def)
next
  case False
  then have "bParseDate mktime t pDate = Inl Malformed"
    by (auto simp: bParseDate_def split: list.splits)
  with False show ?thesis by simp
qed

text \<open>
  Claim C3, as the code has it. The date is read by \<^verbatim>\<open>sscanf_s\<close> with the pattern
  \<^verbatim>\<open>%d-%d-%d_%d:%d:%d\<close>, which does not look at what follows the sixth number. For
  every input that starts with the exact shape \<^verbatim>\<open>YYYY-MM-DD_HH:MM:SS\<close>, followed by
  nothing or by a character that is not a digit: \<open>bParseDate\<close> fails as OutOfRange when a
  component is outside its range, and otherwise succeeds with the six components (unless
  \<^verbatim>\<open>mktime\<close> returns -1). For any input, the failure is Malformed exactly when
  \<^verbatim>\<open>sscanf_s\<close> reads fewer than six numbers.
\<close>

theorem bParseDate_shape:
  "date_shape s \<Longrightarrow> rest = [] \<or> \<not> isdigit (hd rest) \<Longrightarrow>
     bParseDate mktime (s @ rest) pDate
       = (if date_in_range s then
            (if mktime (shape_tm s) = -1 then Inl TimestampFailed
             else Inr (pDate\<lparr>nYear := shape_year s, nMonth := shape_month s,
                               nDay := shape_day s, nHour := shape_hour s,
                               nMinute := shape_minute s, nSecond := shape_second s,
                               tTimestamp := mktime (shape_tm s)\<rparr>))
          else Inl OutOfRange)
     \<and> (bParseDate mktime t pDate = Inl Malformed \<longleftrightarrow> length (sscanf_date t) \<noteq> 6)"
proof (intro conjI)
  assume sh: "date_shape s" and r: "rest = [] \<or> \<not> isdigit (hd rest)"
  show "bParseDate mktime (s @ rest) pDate
       = (if date_in_range s then
            (if mktime (shape_tm s) = -1 then Inl TimestampFailed
             else Inr (pDate\<lparr>nYear := shape_year s, nMonth := shape_month s,
                               nDay := shape_day s, nHour := shape_hour s,
                               nMinute := shape_minute s, nSecond := shape_second s,
                               tTimestamp := mktime (shape_tm s)\<rparr>))
          else Inl OutOfRange)"
    unfolding bParseDate_def sscanf_date_of_shape [OF sh r]
    by (auto simp: date_in_range_def shape_tm_def Let_def)
  show "bParseDate mktime t pDate = Inl Malformed \<longleftrightarrow> length (sscanf_date t) \<noteq> 6"
    by (rule bParseDate_Malformed)
qed

theorem bParseDate_shape_witness:
  "bParseDate mktime_utc ''2025-05-14_20:30:45.csv'' zero_fileDateT
     = Inr (zero_fileDateT\<lparr>nYear := 2025, nMonth := 5, nDay := 14, nHour := 20, nMinute := 30,
                            nSecond := 45, tTimestamp := 1747254645\<rparr>)
   \<and> bParseDate mktime_utc ''2025-13-01_00:00:00'' zero_fileDateT = Inl OutOfRange
   \<and> bParseDate mktime_utc ''bad'' zero_fileDateT = Inl Malformed"
proof -
  have sh1: "date_shape ''2025-05-14_20:30:45''" by code_simp
  have r1: "''.csv'' = [] \<or> \<not> isdigit (hd ''.csv'')" by code_simp
  have v1: "date_in_range ''2025-05-14_20:30:45''" by code_simp
  have t1: "mktime_utc (shape_tm ''2025-05-14_20:30:45'') = 1747254645" by code_simp
  have f1: "shape_year ''2025-05-14_20:30:45'' = 2025" "shape_month ''2025-05-14_20:30:45'' = 5"
    "shape_day ''2025-05-14_20:30:45'' = 14" "shape_hour ''2025-05-14_20:30:45'' = 20"
    "shape_minute ''2025-05-14_20:30:45'' = 30" "shape_second ''2025-05-14_20:30:45'' = 45"
    by code_simp+
  have 1: "bParseDate mktime_utc ''2025-05-14_20:30:45.csv'' zero_fileDateT
     = Inr (zero_fileDateT\<lparr>nYear := 2025, nMonth := 5, nDay := 14, nHour := 20, nMinute := 30,
                            nSecond := 45, tTimestamp := 1747254645\<rparr>)"
    using bParseDate_shape [OF sh1 r1, of mktime_utc zero_fileDateT, THEN conjunct1]
    by (simp add: v1 t1 f1)
  have sh2: "date_shape ''2025-13-01_00:00:00''" by code_simp
  have r2: "[] = [] \<or> \<not> isdigit (hd [])" by simp
  have v2: "\<not> date_in_range ''2025-13-01_00:00:00''" by code_simp
  have 2: "bParseDate mktime_utc ''2025-13-01_00:00:00'' zero_fileDateT = Inl OutOfRange"
    using bParseDate_shape [OF sh2 r2, of mktime_utc zero_fileDateT, THEN conjunct1]
    by (simp add: v2)
  have l3: "length (sscanf_date ''bad'') \<noteq> 6" by code_simp
  have 3: "bParseDate mktime_utc ''bad'' zero_fileDateT = Inl Malformed"
    using bParseDate_shape [OF sh2 r2, of mktime_utc zero_fileDateT "''bad''", THEN conjunct2] l3
    by simp
  show ?thesis using 1 2 3 by (intro conjI)
qed

theorem bParseDate_shape_counterexample:
  "bParseDate_ret (bParseDate mktime_utc ''2025-05-14_20:30:45.csv'' zero_fileDateT) = 1
   \<and> \<not> date_shape ''2025-05-14_20:30:45.csv''
   \<and> bParseDate_ret (bParseDate mktime_utc '' +2025-5-014_20:30:7'' zero_fileDateT) = 1
   \<and> \<not> date_shape '' +2025-5-014_20:30:7''"
  by code_simp

section \<open>The first pass over the archive\<close>

subsection \<open>The loop, round by round\<close>








subsection \<open>One call of the matcher\<close>












subsection \<open>The whole scan\<close>



lemma latest_of_Some:
  "\<exists>r xs ys. latest_of (Some b) cs = Some r \<and> b # cs = xs @ r # ys
      \<and> (\<forall>x \<in> set xs. snd x < snd r) \<and> (\<forall>y \<in> set ys. snd y \<le> snd r)"
proof (induction cs arbitrary: b)
  case Nil
  have "latest_of (Some b) [] = Some b \<and> [b] = [] @ b # []
        \<and> (\<forall>x \<in> set []. snd x < snd b) \<and> (\<forall>y \<in> set []. snd y \<le> snd b)"
    by simp
  then show ?case by blast
next
  case (Cons c cs)
  show ?case
  proof (cases "snd c > snd b")
    case True
    from Cons.IH [of c] obtain r xs ys where
      l: "latest_of (Some c) cs = Some r" and d: "c # cs = xs @ r # ys"
      and lo: "\<forall>x \<in> set xs. snd x < snd r" and hi: "\<forall>y \<in> set ys. snd y \<le> snd r"
      by blast
    have "c \<in> set (xs @ r # ys)" using d [symmetric] by simp
    then have "snd c \<le> snd r" using lo hi by auto
    with True have "snd b < snd r" by simp
    then have br: "snd b < snd r" by simp
    have e: "latest_of (Some b) (c # cs) = Some r" using l True by simp
    have "b # c # cs = (b # xs) @ r # ys" using d by simp
    moreover have "\<forall>x \<in> set (b # xs). snd x < snd r" using lo br by simp
    ultimately show ?thesis using e hi by blast
  next
    case False
    from Cons.IH [of b] obtain r xs ys where
      l: "latest_of (Some b) cs = Some r" and d: "b # cs = xs @ r # ys"
      and lo: "\<forall>x \<in> set xs. snd x < snd r" and hi: "\<forall>y \<in> set ys. snd y \<le> snd r"
      by blast
    show ?thesis
    proof (cases xs)
      case Nil
      with d have "r = b" "ys = cs" by simp_all
      have e: "latest_of (Some b) (c # cs) = Some b" using l False \<open>r = b\<close> by simp
      have "b # c # cs = [] @ b # (c # cs)" by simp
      moreover have "\<forall>x \<in> set []. snd x < snd b" by simp
      moreover have "\<forall>y \<in> set (c # cs). snd y \<le> snd b"
        using hi False \<open>r = b\<close> \<open>ys = cs\<close> by simp
      ultimately show ?thesis using e by blast
    next
      case (Cons x xs')
      with d have x: "x = b" and cs: "cs = xs' @ r # ys" by simp_all
      from lo Cons x have "snd b < snd r" by simp
      with False have "snd c < snd r" by simp
      then have cr: "snd c < snd r" .
      have e: "latest_of (Some b) (c # cs) = Some r" using l False by simp
      have "b # c # cs = (b # c # xs') @ r # ys" using cs by simp
      moreover have "\<forall>x \<in> set (b # c # xs'). snd x < snd r"
        using lo Cons x cr by simp
      ultimately show ?thesis using e hi by blast
    qed
  qed
qed

lemma latest_of_None:
  "latest_of None cs = None \<longleftrightarrow> cs = []"
proof (cases cs)
  case Nil
  then show ?thesis by simp
next
  case (Cons c cs')
  from latest_of_Some [of c cs'] Cons show ?thesis by auto
qed




section \<open>Evaluating the reader on archives built from header blocks\<close>

lemma length_mk_header [simp]:
  "length name \<le> 124 \<Longrightarrow> length sz \<le> 12 \<Longrightarrow> length (mk_header name sz flag) = 512"
  by (simp add: mk_header_def)

lemma hdr_szName_mk_header [simp]:
  "NUL \<notin> set name \<Longrightarrow> length name < 124 \<Longrightarrow> hdr_szName (mk_header name sz flag) = name"
proof -
  assume a: "NUL \<notin> set name" "length name < 124"
  then obtain k where k: "124 - length name = Suc k" by (cases "124 - length name") auto
  have "takeWhile (\<lambda>c. c \<noteq> NUL) (name @ NUL # r) = name" for r
    using a(1) by (induction name) auto
  then show ?thesis
    by (simp add: hdr_szName_def c_string_def mk_header_def k)
qed

lemma hdr_szSize_mk_header [simp]:
  "length name \<le> 124 \<Longrightarrow> length sz \<le> 12 \<Longrightarrow>
   hdr_szSize (mk_header name sz flag) = sz @ replicate (12 - length sz) NUL"
  by (simp add: hdr_szSize_def mk_header_def)

lemma hdr_cTypeflag_mk_header [simp]:
  "length name \<le> 124 \<Longrightarrow> length sz \<le> 12 \<Longrightarrow> hdr_cTypeflag (mk_header name sz flag) = flag"
proof -
  assume a: "length name \<le> 124" "length sz \<le> 12"
  let ?pre = "name @ replicate (124 - length name) NUL @ sz @ replicate (12 - length sz) NUL
                @ replicate 20 NUL"
  have l: "length ?pre = 156" using a by simp
  have "mk_header name sz flag = ?pre @ flag # replicate 355 NUL"
    by (simp add: mk_header_def)
  then have "mk_header name sz flag ! 156 = flag"
    using nth_append_length [of ?pre flag "replicate 355 NUL"] by (simp only: l)
  then show ?thesis by (simp add: hdr_cTypeflag_def)
qed

lemma mk_header_first [simp]:
  "name \<noteq> [] \<Longrightarrow> NUL \<notin> set name \<Longrightarrow> mk_header name sz flag ! 0 \<noteq> NUL"
  by (cases name) (auto simp: mk_header_def)

lemma length_pad_block:
  "length (pad_block d) = length d + (512 - length d mod 512) mod 512"
  by (simp add: pad_block_def)

lemma NUL_in_mk_header [simp]: "NUL \<in> set (mk_header name sz flag)"
  by (simp add: mk_header_def)

lemma gzread_block:
  "length h = 512 \<Longrightarrow>
   gzread \<lparr>gz_before = p, gz_data = h @ rest, gz_damaged = b\<rparr> 512
     = (h, \<lparr>gz_before = p @ h, gz_data = rest, gz_damaged = b\<rparr>)"
  by (simp add: gzread_def)

lemma gzseek_block:
  "0 \<le> n \<Longrightarrow> length d = nat n \<Longrightarrow>
   gzseek \<lparr>gz_before = p, gz_data = d @ rest, gz_damaged = b\<rparr> n
     = \<lparr>gz_before = p @ d, gz_data = rest, gz_damaged = b\<rparr>"
  by (simp add: gzseek_def)

lemma gzseek_0: "gzseek gz 0 = gz"
  by (simp add: gzseek_def)

text \<open>The end of an archive: a block of NULs.\<close>

lemma nExtract_loop_end:
  "nExtract_loop dir m \<lparr>gz_before = p, gz_data = replicate 1024 NUL, gz_damaged = b\<rparr> u log
     = Some (Inr (0, u, log))"
  by (subst nExtract_loop.simps) (simp add: gzread_def TAR_BLOCK_SIZE_def)

text \<open>An entry with an unsafe name, followed by the blocks \<open>d\<close> that the seek skips.\<close>

lemma nExtract_loop_unsafe:
  assumes "name \<noteq> []" "NUL \<notin> set name" "length name < 124" "length sz \<le> 12"
    and "strstr name ''../'' \<or> strstr name [CHR ''.'', CHR ''.'', CHR 0x5C]"
    and "skip_offset (ulParseOctal (sz @ replicate (12 - length sz) NUL) 12) = int (length d)"
  shows "nExtract_loop dir m
           \<lparr>gz_before = p, gz_data = mk_header name sz flag @ d @ rest, gz_damaged = b\<rparr> u log
         = nExtract_loop dir m
             \<lparr>gz_before = p @ mk_header name sz flag @ d, gz_data = rest, gz_damaged = b\<rparr> u
             (log @ [Warn_unsafe_path name])"
  using assms
  by (subst nExtract_loop.simps) (simp add: gzread_block TAR_BLOCK_SIZE_def gzseek_block)

text \<open>A regular file under the target directory that the matcher declines.\<close>

lemma nExtract_loop_declined:
  assumes "name \<noteq> []" "NUL \<notin> set name" "length name < 124" "length sz \<le> 12"
    and "\<not> strstr name ''../''" "\<not> strstr name [CHR ''.'', CHR ''.'', CHR 0x5C]"
    and "flag = CHR ''0'' \<or> flag = NUL" "bIsInDirectory name dir"
    and "(case strrchr name (CHR ''/'') of None \<Rightarrow> name | Some k \<Rightarrow> drop (k + 1) name) \<noteq> []"
    and "fst (m (case strrchr name (CHR ''/'') of None \<Rightarrow> name | Some k \<Rightarrow> drop (k + 1) name) u) = 0"
    and "skip_offset (ulParseOctal (sz @ replicate (12 - length sz) NUL) 12) = int (length d)"
  shows "nExtract_loop dir (Some m)
           \<lparr>gz_before = p, gz_data = mk_header name sz flag @ d @ rest, gz_damaged = b\<rparr> u log
         = nExtract_loop dir (Some m)
             \<lparr>gz_before = p @ mk_header name sz flag @ d, gz_data = rest, gz_damaged = b\<rparr>
             (snd (m (case strrchr name (CHR ''/'') of None \<Rightarrow> name | Some k \<Rightarrow> drop (k + 1) name) u))
             log"
  using assms
  by (subst nExtract_loop.simps)
     (auto simp add: gzread_block TAR_BLOCK_SIZE_def Let_def gzseek_block split: prod.splits
        cong: option.case_cong)





lemma size_field_55:
  "skip_offset (ulParseOctal [CHR ''0'', CHR ''0'', CHR ''0'', CHR ''0'', CHR ''0'', CHR ''0'', CHR ''0'', CHR ''0'', CHR ''0'', CHR ''5'', CHR ''5'', NUL] 12) = 512"
proof -
  have "ulParseOctal [CHR ''0'', CHR ''0'', CHR ''0'', CHR ''0'', CHR ''0'', CHR ''0'', CHR ''0'', CHR ''0'', CHR ''0'', CHR ''5'', CHR ''5'', NUL] 12 = 45"
    by code_simp
  then show ?thesis
    by (simp add: skip_offset_def nBlocks_of_def to_z_off_t_def TAR_BLOCK_SIZE_def)
qed

lemma example_blocks:
  "length (pad_block ''a,b\<newline>1'') = 512" "length (pad_block example_csv) = 512"
  "length (pad_block ''hello'') = 512"
  by (simp_all add: example_csv_def length_pad_block)









section \<open>An unsafe entry with a size that wraps around\<close>

text \<open>A regular file under the target directory that the matcher accepts.\<close>

lemma nExtract_loop_accepted:
  assumes "name \<noteq> []" "NUL \<notin> set name" "length name < 124" "length sz \<le> 12"
    and "\<not> strstr name ''../''" "\<not> strstr name [CHR ''.'', CHR ''.'', CHR 0x5C]"
    and "flag = CHR ''0'' \<or> flag = NUL" "bIsInDirectory name dir"
    and "(case strrchr name (CHR ''/'') of None \<Rightarrow> name | Some k \<Rightarrow> drop (k + 1) name) \<noteq> []"
    and "fst (m (case strrchr name (CHR ''/'') of None \<Rightarrow> name | Some k \<Rightarrow> drop (k + 1) name) u) \<noteq> 0"
  shows "nExtract_loop dir (Some m)
           \<lparr>gz_before = p, gz_data = mk_header name sz flag @ rest, gz_damaged = b\<rparr> u log
         = Some (extract_entry
                   \<lparr>gz_before = p @ mk_header name sz flag, gz_data = rest, gz_damaged = b\<rparr>
                   (ulParseOctal (sz @ replicate (12 - length sz) NUL) 12)
                   (snd (m (case strrchr name (CHR ''/'') of None \<Rightarrow> name
                            | Some k \<Rightarrow> drop (k + 1) name) u))
                   log)"
  using assms
  by (subst nExtract_loop.simps)
     (auto simp add: gzread_block TAR_BLOCK_SIZE_def Let_def split: prod.splits
        cong: option.case_cong)

lemma size_field_max:
  "ulParseOctal [CHR ''3'', CHR ''7'', CHR ''7'', CHR ''7'', CHR ''7'', CHR ''7'', CHR ''7'',
                 CHR ''7'', CHR ''7'', CHR ''7'', CHR ''7'', NUL] 12 = 4294967295"
  by code_simp

lemma skip_offset_max: "skip_offset 4294967295 = 0"
  by (simp add: skip_offset_def nBlocks_of_def to_z_off_t_def TAR_BLOCK_SIZE_def)

lemma extract_example_csv:
  "extract_entry \<lparr>gz_before = p, gz_data = pad_block example_csv @ rest, gz_damaged = b\<rparr> 45 u log
   = Inr (0, u, log @ [Out_battery ''253'' ''2025-05-14 20:15:23''])"
proof -
  let ?gz = "\<lparr>gz_before = p, gz_data = pad_block example_csv @ rest, gz_damaged = b\<rparr>"
  let ?gz' = "\<lparr>gz_before = p @ example_csv, gz_data = drop 45 (pad_block example_csv @ rest),
               gz_damaged = b\<rparr>"
  have l: "length example_csv = 45" by (simp add: example_csv_def)
  have "read_content ?gz 45 [] = read_content ?gz' 0 example_csv"
    by (subst read_content.simps) (simp add: gzread_def CHUNK_def pad_block_def l)
  also have "\<dots> = Some (example_csv, ?gz')"
    by (subst read_content.simps) simp
  finally have rc: "read_content ?gz 45 [] = Some (example_csv, ?gz')" .
  have cs: "c_string example_csv = example_csv" by code_simp
  have t: "nGetCSVDataByColName example_csv (-1) ''TimeStamp'' MAX_BUFFER_SIZE
           = Inr (0, ''2025-05-14 20:15:23'')"
    by code_simp
  have c: "nGetCSVDataByColName example_csv (-1) ''CycleCount'' MAX_BUFFER_SIZE = Inr (0, ''253'')"
    by code_simp
  show ?thesis
    by (simp add: extract_entry_def rc cs t c)
qed

lemma pass1_overflow:
  "nExtract_loop ''logs/BatteryBDC/'' (Some m) overflow_archive u []
   = nExtract_loop ''logs/BatteryBDC/'' (Some m)
       \<lparr>gz_before = mk_header ''../x'' ''37777777777'' (CHR ''0''),
        gz_data = mk_header ''logs/BatteryBDC/BDC_Daily_version_2025-05-14_20:30:45.csv''
                    ''00000000055'' (CHR ''0'') @ pad_block example_csv @ replicate 1024 NUL,
        gz_damaged = False\<rparr> u [Warn_unsafe_path ''../x'']"
  unfolding overflow_archive_def
  using nExtract_loop_unsafe [where name = "''../x''" and sz = "''37777777777''" and d = "[]"
     and dir = "''logs/BatteryBDC/''" and m = "Some m" and flag = "CHR ''0''" and b = False
     and u = u and log = "[]" and p = "[]"]
  by (simp add: size_field_max skip_offset_max)

text \<open>
  Claim C8 at the input where the code departs from it. The size field of the unsafe
  entry stands for \<open>2 ^ 32 - 1\<close>; adding 511 wraps around and \<open>nBlocks\<close> is 0, not
  \<open>8388608\<close>, so nothing is skipped. The block after the header, part of the data that
  the entry declares, is read as the next header: its name reaches the matcher, and in
  the second pass its content is read and printed.
\<close>

theorem unsafe_entry_size_wraps:
  "nBlocks_of (ulParseOctal (hdr_szSize (mk_header ''../x'' ''37777777777'' (CHR ''0''))) 12) = 0
   \<and> scanned_names (Some overflow_archive) ''logs/BatteryBDC/''
       = [''BDC_Daily_version_2025-05-14_20:30:45.csv'']
   \<and> nExtractLatestBdcDailyFile mktime_utc (Some overflow_archive) ''logs/BatteryBDC/''
       = Some (Inr (0, [Out_parsing, Warn_unsafe_path ''../x'',
                        Out_latest ''BDC_Daily_version_2025-05-14_20:30:45.csv'', Out_checking,
                        Warn_unsafe_path ''../x'',
                        Out_battery ''253'' ''2025-05-14 20:15:23'']))"
proof (intro conjI)
  let ?dir = "''logs/BatteryBDC/''"
  let ?f = "''BDC_Daily_version_2025-05-14_20:30:45.csv''"
  let ?init = "\<lparr>szPrefix = ''BDC_Daily_version'', stLatestFile = zero_fileDateT, bFoundMatch = 0\<rparr>"
  show "nBlocks_of (ulParseOctal (hdr_szSize (mk_header ''../x'' ''37777777777'' (CHR ''0''))) 12) = 0"
    by (simp add: size_field_max nBlocks_of_def)
  show "scanned_names (Some overflow_archive) ?dir = [?f]"
    unfolding scanned_names_def nExtractFromTargzWithCallback_def
    by (simp add: pass1_overflow nExtract_loop_declined nExtract_loop_end size_field_55
        example_blocks bIsInDirectory_def strncmp_eq_def)
  have m1: "bLatestBdcDailyMatcher mktime_utc ?f ?init
        = (0, ?init\<lparr>stLatestFile := zero_fileDateT\<lparr>szFilename := ?f, nYear := 2025, nMonth := 5,
                      nDay := 14, nHour := 20, nMinute := 30, nSecond := 45,
                      tTimestamp := 1747254645\<rparr>, bFoundMatch := 1\<rparr>)"
    by code_simp
  let ?st1 = "\<lparr>szPrefix = ''BDC_Daily_version'',
               stLatestFile = zero_fileDateT\<lparr>szFilename := ?f, nYear := 2025, nMonth := 5,
                      nDay := 14, nHour := 20, nMinute := 30, nSecond := 45,
                      tTimestamp := 1747254645\<rparr>,
               bFoundMatch = 1\<rparr>"
  have p1: "nExtractFromTargzWithCallback (Some overflow_archive) ?dir
              (Some (bLatestBdcDailyMatcher mktime_utc)) ?init
            = Some (Inr (0, ?st1, [Warn_unsafe_path ''../x'']))"
    unfolding nExtractFromTargzWithCallback_def
    by (simp add: pass1_overflow nExtract_loop_declined nExtract_loop_end size_field_55
        example_blocks bIsInDirectory_def strncmp_eq_def m1)
  have sz: "ulParseOctal [CHR ''0'', CHR ''0'', CHR ''0'', CHR ''0'', CHR ''0'', CHR ''0'',
                 CHR ''0'', CHR ''0'', CHR ''0'', CHR ''5'', CHR ''5'', NUL] 12 = 45"
    by code_simp
  have p2: "nExtractFromTargzWithCallback (Some overflow_archive) ?dir
              (Some bExtractLatestFileMatcher) ?st1
            = Some (Inr (0, ?st1,
                         [Warn_unsafe_path ''../x'', Out_battery ''253'' ''2025-05-14 20:15:23'']))"
    unfolding nExtractFromTargzWithCallback_def
    by (simp add: pass1_overflow nExtract_loop_accepted sz extract_example_csv
        bIsInDirectory_def strncmp_eq_def bExtractLatestFileMatcher_def)
  show "nExtractLatestBdcDailyFile mktime_utc (Some overflow_archive) ?dir
       = Some (Inr (0, [Out_parsing, Warn_unsafe_path ''../x'', Out_latest ?f, Out_checking,
                        Warn_unsafe_path ''../x'',
                        Out_battery ''253'' ''2025-05-14 20:15:23'']))"
    by (simp add: nExtractLatestBdcDailyFile_def p1 p2)
qed

section \<open>Further facts about the reader and the accessor\<close>

text \<open>
  An entry with an unsafe name is never handed to the matcher: the loop writes the
  warning, seeks and goes on with the next header, whatever the matcher is.
\<close>

lemma unsafe_entry_skipped:
  assumes "gzread gz TAR_BLOCK_SIZE = (stHeader, gz1)" "length stHeader = TAR_BLOCK_SIZE"
    and "stHeader ! 0 \<noteq> NUL" "NUL \<in> set stHeader"
    and "strstr (hdr_szName stHeader) ''../''
         \<or> strstr (hdr_szName stHeader) [CHR ''.'', CHR ''.'', CHR 0x5C]"
  shows "nExtract_loop dir m gz u log
         = nExtract_loop dir m
             (gzseek gz1 (skip_offset (ulParseOctal (hdr_szSize stHeader) 12)))
             u (log @ [Warn_unsafe_path (hdr_szName stHeader)])"
  using assms by (subst nExtract_loop.simps) simp

text \<open>
  The seek covers the data blocks of the entry, \<open>512 * ceil (size / 512)\<close> bytes, as
  long as the size is at most \<open>2 ^ 31 - 512\<close>.
\<close>

lemma skip_offset_blocks:
  assumes "uint ulFileSize \<le> 2 ^ 31 - 512"
  shows "skip_offset ulFileSize = 512 * ((uint ulFileSize + 511) div 512)"
proof -
  have a: "uint (ulFileSize + 512 - 1) = uint ulFileSize + 511"
  proof -
    have e: "ulFileSize + 512 - 1 = ulFileSize + 511" by simp
    have "uint (ulFileSize + 511) = (uint ulFileSize + uint (511 :: ulong)) mod 2 ^ 32"
      by (simp only: uint_word_ariths) simp
    also have "\<dots> = (uint ulFileSize + 511) mod 2 ^ 32" by simp
    also have "\<dots> = uint ulFileSize + 511"
      using assms uint_ge_0 [of ulFileSize] by (intro mod_pos_pos_trivial) simp_all
    finally show ?thesis unfolding e .
  qed
  have d: "uint ((ulFileSize + 512 - 1) div 512) = (uint ulFileSize + 511) div 512"
    by (simp only: uint_div a) simp
  have b: "(uint ulFileSize + 511) div 512 * 512 < 2 ^ 31"
    using assms uint_ge_0 [of ulFileSize] by simp
  have "0 \<le> (uint ulFileSize + 511) div 512"
    using uint_ge_0 [of ulFileSize] by (intro pos_imp_zdiv_nonneg_iff [THEN iffD2]) simp_all
  then have nn: "0 \<le> (uint ulFileSize + 511) div 512 * 512" by simp
  show ?thesis
    unfolding skip_offset_def nBlocks_of_def d TAR_BLOCK_SIZE_def to_z_off_t_def Let_def
    using b nn by simp
qed

text \<open>
  A backward seek goes back by the bytes asked for, which are then read again; it
  fails, and the position stays, when it asks for more than the bytes before the
  position.
\<close>

lemma gzseek_backward:
  assumes "n < 0" "length p = nat (- n)"
  shows "gzseek \<lparr>gz_before = q @ p, gz_data = r, gz_damaged = b\<rparr> n
         = \<lparr>gz_before = q, gz_data = p @ r, gz_damaged = b\<rparr>"
proof -
  have "nat (int (length q) + int (nat (- n)) + n) = length q"
    using assms(1) by simp
  then show ?thesis
    using assms by (simp add: gzseek_def Let_def)
qed

lemma gzseek_before_start:
  "int (length (gz_before gz)) + n < 0 \<Longrightarrow> gzseek gz n = gz"
  by (simp add: gzseek_def)

text \<open>
  A number that does not fit an \<^verbatim>\<open>int\<close> is stored with its low 32 bits: the year
  \<open>2 ^ 32 + 2025\<close> is read as 2025.
\<close>

lemma year_wraps_around:
  "bParseDate mktime_utc ''4294969321-05-14_20:30:45'' zero_fileDateT
     = Inr (zero_fileDateT\<lparr>nYear := 2025, nMonth := 5, nDay := 14, nHour := 20, nMinute := 30,
                            nSecond := 45, tTimestamp := 1747254645\<rparr>)"
  by code_simp

text \<open>
  An accepted entry whose size field stands for \<open>2 ^ 32 - 1\<close>: the buffer allocated has
  no byte for the terminator.
\<close>

lemma extract_entry_size_max: "extract_entry gz 4294967295 u log = Inl OutOfBounds"
  by (simp add: extract_entry_def)

text \<open>A text with a newline never leads outside the heap copy.\<close>

lemma newline_no_fault:
  assumes "LF \<in> set csvText"
  shows "nGetCSVDataByColName csvText nRow col nBufSize \<noteq> Inl OutOfBounds"
proof (cases "0 < nBufSize")
  case True
  show ?thesis
    unfolding nGetCSV_unfold [OF True] using assms by (simp split: option.splits)
next
  case False
  then show ?thesis by (simp add: nGetCSVDataByColName_def)
qed

text \<open>The examples of the accessor that its description gives.\<close>

lemma accessor_examples:
  "nGetCSVDataByColName ''TimeStamp,CycleCount\<newline>2025-05-14 20:15:23,253\<newline>'' (-1)
     ''CycleCount'' 1024 = Inr (0, ''253'')"
  "nGetCSVDataByColName ''TimeStamp,CycleCount\<newline>2025-05-14 20:15:23,253\<newline>'' 0
     ''TimeStamp'' 1024 = Inr (0, ''2025-05-14 20:15:23'')"
  "nGetCSVDataByColName (''A,B\<newline>'' @ [DQUOTE] @ ''x,y'' @ [DQUOTE] @ '',9\<newline>'') 0 ''A'' 1024
     = Inr (0, ''x,y'')"
  by code_simp+

lemma strchr_count:
  "strchr s c = Some k \<Longrightarrow>
   length (filter (\<lambda>x. x = c) s) = Suc (length (filter (\<lambda>x. x = c) (drop (Suc k) s)))"
  by (induction s arbitrary: k) (auto split: if_splits)

text \<open>
  Rows by number: skipping \<open>n\<close> lines fails exactly when the text after the header has
  fewer than \<open>n\<close> newlines.
\<close>

lemma csv_skip_rows_None:
  "csv_skip_rows body n = None \<longleftrightarrow> length (filter (\<lambda>c. c = LF) body) < n"
proof (induction n arbitrary: body)
  case 0
  show ?case by simp
next
  case (Suc n)
  show ?case
  proof (cases "strchr body LF")
    case None
    then have "LF \<notin> set body" by (simp add: strchr_None)
    then have "filter (\<lambda>c. c = LF) body = []" by (auto simp: filter_empty_conv)
    with None show ?thesis by simp
  next
    case (Some k)
    from strchr_count [OF Some] Some Suc.IH [of "drop (k + 1) body"] show ?thesis by simp
  qed
qed

end
